theory Spec2Isabelle
  imports Main "HOL-Library.Monad_Syntax" "HOL-Library.Multiset"
begin

section \<open>Data model\<close>

text \<open>
  The development follows \<^verbatim>\<open>src/storage.ts\<close> (class \<^verbatim>\<open>ConnectionsStorage\<close>) and
  \<^verbatim>\<open>src/interfaces.ts\<close>.

  A \<^verbatim>\<open>BitSet\<close> of the \<^verbatim>\<open>bitset\<close> package is an unbounded bit vector: a set of
  natural numbers that is finite or, after \<^verbatim>\<open>not()\<close>, cofinite.  It is modelled by the
  set of the indices of its one bits.  \<^verbatim>\<open>and\<close>, \<^verbatim>\<open>or\<close> and \<^verbatim>\<open>not\<close> return a fresh
  vector (intersection, union, complement), \<^verbatim>\<open>set(i, 1)\<close> inserts \<open>i\<close>,
  \<^verbatim>\<open>cardinality()\<close> is the number of one bits and \<^verbatim>\<open>toArray()\<close> lists the one bits in
  ascending order.  The last two are only ever applied to a vector that has been
  intersected with the origins vector, which is finite (lemma \<open>finite_prepareOriginVector\<close>).
\<close>

type_synonym BitSet = "nat set"

text \<open>\<^verbatim>\<open>BitSet[][][]\<close>, indexed \<open>[day][airport][stops]\<close>.\<close>

type_synonym storage = "BitSet list list list"

text \<open>
  A JavaScript \<^verbatim>\<open>number\<close> that the code uses as a counter or an index is an \<open>int\<close> or a
  \<open>nat\<close>.  A date is the number of milliseconds that \<^verbatim>\<open>getTime()\<close> returns; the
  \<^verbatim>\<open>date\<close> string of a connection is represented by the time stamp that
  \<^verbatim>\<open>new Date(date)\<close> parses it to.  Numbers that are not integers and strings that
  are no dates are outside the model.  The counts of the origins are integers: the sums
  of counts that the shoulder loops form agree with those of the code, which computes
  with doubles, while they stay below \<open>2^53\<close> in absolute value.
\<close>

record Connection =
  originAirportCode :: string
  destinationAirportCode :: string
  date :: int
  stops :: int
  arriveNextDay :: int

text \<open>An \<^verbatim>\<open>OriginInput\<close> \<open>{code, count}\<close> is the pair \<open>(code, count)\<close>.\<close>

type_synonym OriginInput = "string \<times> int"

record Destination =
  code :: string
  availableOrigins :: nat
  totalStops :: nat
  unavailableOutboundOrigins :: "string list"
  outboundShoulderNights :: int
  unavailableInboundOrigins :: "string list"
  inboundShoulderNights :: int

text \<open>
  The fields of the class.  \<^verbatim>\<open>airports\<close> is a \<^verbatim>\<open>Map<string, number>\<close>: an association
  list in insertion order, read with \<open>map_of\<close>; a key is only ever inserted when it is
  absent, so \<^verbatim>\<open>airports.size\<close> is the length of the list.
\<close>

record ConnectionsStorage =
  outboundStorage :: storage
  inboundStorage :: storage
  airports :: "(string \<times> nat) list"
  airportsArray :: "string list"
  startDate :: int

definition MAX_STOPS_SUPPORTED :: nat where
  [simp]: "MAX_STOPS_SUPPORTED = 2"

definition MAX_DAYS_SUPPORTED :: nat where
  [simp]: "MAX_DAYS_SUPPORTED = 360"

text \<open>
  What a call can throw: the two \<^verbatim>\<open>Error\<close>s of the validators, and the
  \<^verbatim>\<open>TypeError\<close> of the runtime when an element of an array is read at an index
  where the array is \<^verbatim>\<open>undefined\<close>.
\<close>

datatype error = InvalidStops | DateOutOfRange | TypeError

section \<open>Constructor and airport registry\<close>

definition init :: "int \<Rightarrow> ConnectionsStorage" where
  "init initDate =
     \<lparr> outboundStorage = replicate MAX_DAYS_SUPPORTED [],
       inboundStorage = replicate MAX_DAYS_SUPPORTED [],
       airports = [],
       airportsArray = [],
       startDate = initDate \<rparr>"

text \<open>
  The body of the loop of \<^verbatim>\<open>addAirport\<close> for one store and one day \<open>i\<close>: push an empty
  row, then push \<open>MAX_STOPS_SUPPORTED + 1\<close> empty bit vectors onto it.
\<close>

definition pushAirportSlot :: "nat \<Rightarrow> storage \<Rightarrow> storage" where
  "pushAirportSlot i st = st[i := st ! i @ [replicate (MAX_STOPS_SUPPORTED + 1) {}]]"

definition addAirport :: "string \<Rightarrow> ConnectionsStorage \<Rightarrow> bool \<times> ConnectionsStorage" where
  "addAirport airportCode s =
     (if map_of (airports s) airportCode \<noteq> None then (False, s)
      else (True,
        s\<lparr> airports := airports s @ [(airportCode, length (airports s))],
           airportsArray := airportsArray s @ [airportCode],
           outboundStorage := fold pushAirportSlot [0..<MAX_DAYS_SUPPORTED] (outboundStorage s),
           inboundStorage := fold pushAirportSlot [0..<MAX_DAYS_SUPPORTED] (inboundStorage s) \<rparr>))"

section \<open>Validation and date conversion\<close>

definition validateStops :: "int \<Rightarrow> error + unit" where
  "validateStops stops' =
     (if stops' < 0 \<or> stops' > int MAX_STOPS_SUPPORTED then Inl InvalidStops else Inr ())"

definition validateDateIndex :: "int \<Rightarrow> error + unit" where
  "validateDateIndex index =
     (if index < 0 \<or> index > int MAX_DAYS_SUPPORTED then Inl DateOutOfRange else Inr ())"

definition convertDateToArrayIndex :: "ConnectionsStorage \<Rightarrow> int \<Rightarrow> error + int" where
  "convertDateToArrayIndex s date' =
     (let timeDifference = date' - startDate s;
          dateIndex = timeDifference div (1000 * 3600 * 24)
      in case validateDateIndex dateIndex of
           Inl e \<Rightarrow> Inl e
         | Inr _ \<Rightarrow> Inr dateIndex)"

section \<open>Storing a connection\<close>

text \<open>
  \<^verbatim>\<open>st[day][airport][stops]\<close> for a read or a \<^verbatim>\<open>set\<close>: \<open>None\<close> where one of the three
  array reads yields \<^verbatim>\<open>undefined\<close>, on which the next access throws a \<^verbatim>\<open>TypeError\<close>.
\<close>

definition cell :: "'a list list list \<Rightarrow> int \<Rightarrow> nat \<Rightarrow> int \<Rightarrow> 'a option" where
  "cell st day a k =
     (if 0 \<le> day \<and> nat day < length st \<and> a < length (st ! nat day)
         \<and> 0 \<le> k \<and> nat k < length (st ! nat day ! a)
      then Some (st ! nat day ! a ! nat k) else None)"

text \<open>\<^verbatim>\<open>st[day][airport][stops].set(ndx, 1)\<close>, in place.\<close>

definition setBit :: "storage \<Rightarrow> int \<Rightarrow> nat \<Rightarrow> int \<Rightarrow> nat \<Rightarrow> storage option" where
  "setBit st day a k ndx =
     (case cell st day a k of
        None \<Rightarrow> None
      | Some b \<Rightarrow>
          Some (st[nat day := (st ! nat day)[a := (st ! nat day ! a)[nat k := insert ndx b]]]))"

text \<open>
  \<^verbatim>\<open>setConnection\<close> returns nothing or throws; the store it leaves behind is the second
  component in both cases.
\<close>

definition setConnection :: "Connection \<Rightarrow> ConnectionsStorage \<Rightarrow> (error + unit) \<times> ConnectionsStorage" where
  "setConnection c s =
     (case validateStops (stops c) of
        Inl e \<Rightarrow> (Inl e, s)
      | Inr _ \<Rightarrow>
         (let s1 = snd (addAirport (originAirportCode c) s);
              s2 = snd (addAirport (destinationAirportCode c) s1)
          in case convertDateToArrayIndex s2 (date c) of
               Inl e \<Rightarrow> (Inl e, s2)
             | Inr dateIndex \<Rightarrow>
                (let arrivalDateIndex = dateIndex + arriveNextDay c
                 in case validateDateIndex arrivalDateIndex of
                      Inl e \<Rightarrow> (Inl e, s2)
                    | Inr _ \<Rightarrow>
                       (let originIndex = map_of (airports s2) (originAirportCode c);
                            destinationIndex = map_of (airports s2) (destinationAirportCode c)
                        in if originIndex = None \<or> destinationIndex = None then (Inr (), s2)
                           else
                            (case setBit (outboundStorage s2) arrivalDateIndex
                                    (the destinationIndex) (stops c) (the originIndex) of
                               None \<Rightarrow> (Inl TypeError, s2)
                             | Some ob \<Rightarrow>
                                (let s3 = s2\<lparr>outboundStorage := ob\<rparr>
                                 in case setBit (inboundStorage s3) dateIndex
                                           (the originIndex) (stops c) (the destinationIndex) of
                                      None \<Rightarrow> (Inl TypeError, s3)
                                    | Some ib \<Rightarrow> (Inr (), s3\<lparr>inboundStorage := ib\<rparr>)))))))"

section \<open>Ranking\<close>

text \<open>\<^verbatim>\<open>new BitSet(origins.map(get).filter(defined))\<close>: the indices of the registered codes.\<close>

definition prepareOriginVector :: "ConnectionsStorage \<Rightarrow> string list \<Rightarrow> BitSet" where
  "prepareOriginVector s origins = set (List.map_filter (map_of (airports s)) origins)"

text \<open>
  \<^verbatim>\<open>getOutboundStopsCount\<close> and \<^verbatim>\<open>getInboundStopsCount\<close> are the same text over the two
  stores; \<open>getStopsCount\<close> is that text over a store \<open>st\<close>.  \<open>None\<close> is the
  \<^verbatim>\<open>TypeError\<close> of a read through \<^verbatim>\<open>undefined\<close>.
\<close>

definition getStopsCount :: "storage \<Rightarrow> BitSet \<Rightarrow> int \<Rightarrow> nat \<Rightarrow> nat option" where
  "getStopsCount st originsVector index destinationIndex = do {
     direct \<leftarrow> cell st index destinationIndex 0;
     let directNeg = (- direct) \<inter> originsVector;
     oneStop \<leftarrow> cell st index destinationIndex 1;
     let oneStopCounter = card (oneStop \<inter> directNeg);
     let oneStopNeg = - oneStop;
     twoStop \<leftarrow> cell st index destinationIndex 2;
     let twoStopCounter = card (twoStop \<inter> directNeg \<inter> oneStopNeg) * 2;
     Some (oneStopCounter + twoStopCounter)
   }"

definition getOutboundStopsCount :: "ConnectionsStorage \<Rightarrow> BitSet \<Rightarrow> int \<Rightarrow> nat \<Rightarrow> nat option" where
  "getOutboundStopsCount s originsVector outboundIndex destinationIndex =
     getStopsCount (outboundStorage s) originsVector outboundIndex destinationIndex"

definition getInboundStopsCount :: "ConnectionsStorage \<Rightarrow> BitSet \<Rightarrow> int \<Rightarrow> nat \<Rightarrow> nat option" where
  "getInboundStopsCount s originsVector inboundIndex destinationIndex =
     getStopsCount (inboundStorage s) originsVector inboundIndex destinationIndex"

text \<open>
  \<^verbatim>\<open>getUnavailableOrigins\<close>.  \<^verbatim>\<open>airportsArray[arrayIndex]\<close> is within the array for
  every index of the origins vector when the registry is well formed (\<open>wf\<close> below).
\<close>

definition getUnavailableOrigins :: "ConnectionsStorage \<Rightarrow> BitSet \<Rightarrow> BitSet \<Rightarrow> nat \<Rightarrow> string list" where
  "getUnavailableOrigins s availableConnections originsVector currentAirportIndex =
     map (\<lambda>arrayIndex. airportsArray s ! arrayIndex)
       (filter (\<lambda>arrayIndex. arrayIndex \<noteq> currentAirportIndex)
          (sorted_list_of_set ((- availableConnections) \<inter> originsVector)))"

text \<open>
  \<^verbatim>\<open>sumArray\<close> adds the counts from left to right, starting from 0.  The counts are
  integers, and the model adds and multiplies them as integers.  The code computes with
  IEEE doubles, which gives the same values as long as every sum and product is below
  \<open>2^53\<close> in absolute value; from there on the code rounds.  The statements about the
  shoulder nights are restricted to this range.
\<close>

definition sumArray :: "int list \<Rightarrow> int" where
  "sumArray arr = foldl (\<lambda>accumulator currentValue. accumulator + currentValue) 0 arr"

text \<open>
  \<^verbatim>\<open>new Map(origins.map(({code, count}) => [code, count]))\<close>: a later entry overwrites the
  count of an earlier one with the same code, and the keys keep the order of their first
  occurrence.
\<close>

definition originsMapOf :: "OriginInput list \<Rightarrow> (string \<rightharpoonup> int)" where
  "originsMapOf origins = map_of (rev origins)"

definition originsMapKeys :: "OriginInput list \<Rightarrow> string list" where
  "originsMapKeys origins = rev (remdups (rev (map fst origins)))"

text \<open>
  \<^verbatim>\<open>st[day][i][0].or(st[day][i][1]).or(st[day][i][2])\<close>.  The receiver must be defined;
  \<^verbatim>\<open>or\<close> reads an \<^verbatim>\<open>undefined\<close> argument as the empty vector.
\<close>

definition orArg :: "BitSet option \<Rightarrow> BitSet" where
  "orArg b = (case b of None \<Rightarrow> {} | Some x \<Rightarrow> x)"

definition availableConnections :: "storage \<Rightarrow> int \<Rightarrow> nat \<Rightarrow> BitSet option" where
  "availableConnections st day i = do {
     b0 \<leftarrow> cell st day i 0;
     Some (b0 \<union> orArg (cell st day i 1) \<union> orArg (cell st day i 2))
   }"

text \<open>
  The variables that a shoulder loop updates: the available connections, the count,
  the total stops and the shoulder nights of one direction.
\<close>

type_synonym loopState = "BitSet \<times> nat \<times> nat \<times> int"

text \<open>
  The body of the inner \<^verbatim>\<open>if\<close> of both shoulder loops, for the store \<open>st\<close> and the
  day \<open>day\<close> (\<^verbatim>\<open>outboundIndex - j\<close> or \<^verbatim>\<open>inboundIndex + j\<close>).  The source reads the count
  of an origin with a non-null assertion, \<^verbatim>\<open>originsMap.get(...)!\<close>.
\<close>

definition shoulderNight ::
  "storage \<Rightarrow> (string \<rightharpoonup> int) \<Rightarrow> string list \<Rightarrow> BitSet \<Rightarrow> nat \<Rightarrow> int \<Rightarrow> int \<Rightarrow> loopState \<Rightarrow> loopState option" where
  "shoulderNight st originsMap arr originsVector i day j v =
     (case v of (available, count', stops', nights) \<Rightarrow> do {
        aocSn \<leftarrow> availableConnections st day i;
        let currentRequiredOrigins = (- available) \<inter> originsVector;
        stopsCount \<leftarrow> getStopsCount st currentRequiredOrigins day i;
        let temp = aocSn \<inter> currentRequiredOrigins;
        let temporaryCardinality = card temp;
        Some (available \<union> aocSn,
              count' + temporaryCardinality,
              stops' + stopsCount,
              nights
                + sumArray (map (\<lambda>ind. the (originsMap (arr ! ind))) (sorted_list_of_set temp)) * j)
      })"

text \<open>
  \<^verbatim>\<open>for (let j = 1; j <= max; j++) if (count < origins.length [&& max > 0]) {...}\<close>
  over the list \<open>js\<close> of the values of \<open>j\<close>.  \<open>g\<close> is the conjunct \<^verbatim>\<open>max > 0\<close> that only the
  inbound loop has inside; \<open>dayOf j\<close> is the day probed.
\<close>

fun shoulderLoop ::
  "storage \<Rightarrow> (string \<rightharpoonup> int) \<Rightarrow> string list \<Rightarrow> BitSet \<Rightarrow> nat \<Rightarrow> bool \<Rightarrow> (int \<Rightarrow> int) \<Rightarrow> nat
     \<Rightarrow> int list \<Rightarrow> loopState \<Rightarrow> loopState option" where
  "shoulderLoop st originsMap arr originsVector n g dayOf i [] v = Some v"
| "shoulderLoop st originsMap arr originsVector n g dayOf i (j # js) v =
     (if fst (snd v) < n \<and> g
      then do {
        v' \<leftarrow> shoulderNight st originsMap arr originsVector i (dayOf j) j v;
        shoulderLoop st originsMap arr originsVector n g dayOf i js v'
      }
      else shoulderLoop st originsMap arr originsVector n g dayOf i js v)"

text \<open>The body of the loop over the candidates, for the airport index \<open>i\<close>.\<close>

definition candidate ::
  "ConnectionsStorage \<Rightarrow> OriginInput list \<Rightarrow> BitSet \<Rightarrow> int \<Rightarrow> int \<Rightarrow> int \<Rightarrow> int \<Rightarrow> nat
     \<Rightarrow> Destination option" where
  "candidate s origins originsVector outboundIndex inboundIndex
       maxOutboundShoulderNights maxInboundShoulderNights i = do {
     availableOutbound0 \<leftarrow> availableConnections (outboundStorage s) outboundIndex i;
     let outboundCount0 = card (availableOutbound0 \<inter> originsVector);
     totalOutboundStops0 \<leftarrow> getOutboundStopsCount s originsVector outboundIndex i;
     (availableOutboundConnections, outboundCount, totalOutboundStops, outboundShoulderNights') \<leftarrow>
       (if outboundCount0 < length origins \<and> maxOutboundShoulderNights > 0
        then shoulderLoop (outboundStorage s) (originsMapOf origins) (airportsArray s) originsVector
               (length origins) True (\<lambda>j. outboundIndex - j) i [1..maxOutboundShoulderNights]
               (availableOutbound0, outboundCount0, totalOutboundStops0, 0)
        else Some (availableOutbound0, outboundCount0, totalOutboundStops0, 0));
     availableInbound0 \<leftarrow> availableConnections (inboundStorage s) inboundIndex i;
     let inboundCount0 = card (availableInbound0 \<inter> originsVector);
     totalInboundStops0 \<leftarrow> getInboundStopsCount s originsVector inboundIndex i;
     (availableInboundConnections, inboundCount, totalInboundStops, inboundShoulderNights') \<leftarrow>
       (if inboundCount0 < length origins
        then shoulderLoop (inboundStorage s) (originsMapOf origins) (airportsArray s) originsVector
               (length origins) (maxInboundShoulderNights > 0) (\<lambda>j. inboundIndex + j) i
               [1..maxInboundShoulderNights]
               (availableInbound0, inboundCount0, totalInboundStops0, 0)
        else Some (availableInbound0, inboundCount0, totalInboundStops0, 0));
     Some \<lparr> code = airportsArray s ! i,
            availableOrigins = outboundCount + inboundCount,
            totalStops = totalOutboundStops + totalInboundStops,
            unavailableOutboundOrigins =
              getUnavailableOrigins s availableOutboundConnections originsVector i,
            outboundShoulderNights = outboundShoulderNights',
            unavailableInboundOrigins =
              getUnavailableOrigins s availableInboundConnections originsVector i,
            inboundShoulderNights = inboundShoulderNights' \<rparr>
   }"

text \<open>\<^verbatim>\<open>for (let i = 0; i < this.airports.size; i++) result.push(...)\<close> over the indices \<open>is\<close>.\<close>

fun candidates ::
  "ConnectionsStorage \<Rightarrow> OriginInput list \<Rightarrow> BitSet \<Rightarrow> int \<Rightarrow> int \<Rightarrow> int \<Rightarrow> int \<Rightarrow> nat list
     \<Rightarrow> Destination list option" where
  "candidates s origins originsVector outboundIndex inboundIndex maxOut maxIn [] = Some []"
| "candidates s origins originsVector outboundIndex inboundIndex maxOut maxIn (i # is) = do {
     d \<leftarrow> candidate s origins originsVector outboundIndex inboundIndex maxOut maxIn i;
     ds \<leftarrow> candidates s origins originsVector outboundIndex inboundIndex maxOut maxIn is;
     Some (d # ds)
   }"

text \<open>
  \<^verbatim>\<open>result.sort((a, b) => b.availableOrigins - a.availableOrigins)\<close>: the sort of the
  runtime is stable, so the result is the stable sort by descending \<open>availableOrigins\<close>.
\<close>

definition sortResult :: "Destination list \<Rightarrow> Destination list" where
  "sortResult result = sort_key (\<lambda>d. - int (availableOrigins d)) result"

definition getDestinationsForDatePair ::
  "ConnectionsStorage \<Rightarrow> OriginInput list \<Rightarrow> int \<Rightarrow> int \<Rightarrow> int \<Rightarrow> int \<Rightarrow> int
     \<Rightarrow> error + Destination list" where
  "getDestinationsForDatePair s origins meetingStart meetingEnd
       maxOutboundShoulderNights maxInboundShoulderNights take' =
     (let originsVector = prepareOriginVector s (originsMapKeys origins)
      in case convertDateToArrayIndex s meetingStart of
           Inl e \<Rightarrow> Inl e
         | Inr outboundIndex \<Rightarrow>
            (case convertDateToArrayIndex s meetingEnd of
               Inl e \<Rightarrow> Inl e
             | Inr inboundIndex \<Rightarrow>
                (case candidates s origins originsVector outboundIndex inboundIndex
                        maxOutboundShoulderNights maxInboundShoulderNights
                        [0..<length (airports s)] of
                   None \<Rightarrow> Inl TypeError
                 | Some result \<Rightarrow>
                    (let sorted' = sortResult result
                     in if take' > 0 then Inr (take (nat take') sorted') else Inr sorted'))))"

section \<open>The invariant of the class\<close>

text \<open>
  The constructor creates \<open>MAX_DAYS_SUPPORTED\<close> rows in both stores and no method adds
  or removes one; \<^verbatim>\<open>addAirport\<close> extends every row by one slot of
  \<open>MAX_STOPS_SUPPORTED + 1\<close> vectors and appends the code to both registry structures
  with the next free index.  Hence in every store that the constructor, \<^verbatim>\<open>addAirport\<close>
  and \<^verbatim>\<open>setConnection\<close> can produce, each row has one slot per registered airport,
  and \<^verbatim>\<open>airports\<close> maps the \<open>i\<close>-th code of \<^verbatim>\<open>airportsArray\<close> to \<open>i\<close>.
\<close>

definition wfStorage :: "nat \<Rightarrow> storage \<Rightarrow> bool" where
  "wfStorage n st \<longleftrightarrow>
     length st = MAX_DAYS_SUPPORTED \<and>
     (\<forall>row \<in> set st. length row = n \<and> (\<forall>slot \<in> set row. length slot = MAX_STOPS_SUPPORTED + 1))"

definition wf :: "ConnectionsStorage \<Rightarrow> bool" where
  "wf s \<longleftrightarrow>
     wfStorage (length (airportsArray s)) (outboundStorage s) \<and>
     wfStorage (length (airportsArray s)) (inboundStorage s) \<and>
     airports s = zip (airportsArray s) [0..<length (airportsArray s)] \<and>
     distinct (airportsArray s)"

text \<open>A sequence of \<^verbatim>\<open>setConnection\<close> calls, the caller going on after a call that throws.\<close>

definition setConnections :: "Connection list \<Rightarrow> ConnectionsStorage \<Rightarrow> ConnectionsStorage" where
  "setConnections cs s = fold (\<lambda>c s'. snd (setConnection c s')) cs s"

section \<open>The fixture of the test\<close>

definition connection :: "string \<Rightarrow> string \<Rightarrow> int \<Rightarrow> int \<Rightarrow> int \<Rightarrow> Connection" where
  "connection origin destination date' stops' arriveNextDay' =
     \<lparr> originAirportCode = origin, destinationAirportCode = destination, date = date',
       stops = stops', arriveNextDay = arriveNextDay' \<rparr>"

text \<open>Midnight UTC of a day of January 2025, in milliseconds since the epoch.\<close>

definition january2025 :: "int \<Rightarrow> int" where
  "january2025 dayOfMonth = 1735689600000 + (dayOfMonth - 1) * 86400000"

definition fixture :: ConnectionsStorage where
  "fixture =
     setConnections
       [connection ''AAA'' ''CCC'' (january2025 9) 2 0,
        connection ''AAA'' ''DDD'' (january2025 10) 0 0,
        connection ''BBB'' ''CCC'' (january2025 10) 1 0,
        connection ''CCC'' ''AAA'' (january2025 15) 1 0,
        connection ''DDD'' ''AAA'' (january2025 15) 0 0,
        connection ''CCC'' ''BBB'' (january2025 16) 0 0]
       (init (january2025 1))"

section \<open>Notions used in the statements\<close>

text \<open>The store after the two \<^verbatim>\<open>addAirport\<close> calls of \<^verbatim>\<open>setConnection\<close>.\<close>

definition withAirports :: "Connection \<Rightarrow> ConnectionsStorage \<Rightarrow> ConnectionsStorage" where
  "withAirports c s =
     snd (addAirport (destinationAirportCode c) (snd (addAirport (originAirportCode c) s)))"

text \<open>The day index of a date: \<^verbatim>\<open>Math.floor((date - startDate) / (1000 * 3600 * 24))\<close>.\<close>

definition dayIndex :: "ConnectionsStorage \<Rightarrow> int \<Rightarrow> int" where
  "dayIndex s date' = (date' - startDate s) div 86400000"


text \<open>The one bits of \<^verbatim>\<open>st[day][a][k]\<close>, none where there is no such vector.\<close>

definition bitsOf :: "storage \<Rightarrow> int \<Rightarrow> nat \<Rightarrow> int \<Rightarrow> BitSet" where
  "bitsOf st day a k = orArg (cell st day a k)"

text \<open>
  One direction of the body of the candidate loop: the coverage, the count and the stops on
  the anchor day, then the shoulder loop behind its outer guard.  \<open>outer\<close> is the conjunct
  \<^verbatim>\<open>max > 0\<close> that only the outbound loop has in the outer \<^verbatim>\<open>if\<close>.
\<close>

definition direction ::
  "storage \<Rightarrow> (string \<rightharpoonup> int) \<Rightarrow> string list \<Rightarrow> BitSet \<Rightarrow> nat \<Rightarrow> int \<Rightarrow> bool \<Rightarrow> bool
     \<Rightarrow> (int \<Rightarrow> int) \<Rightarrow> nat \<Rightarrow> int list \<Rightarrow> loopState option" where
  "direction st originsMap arr originsVector n anchor outer g dayOf i js = do {
     available0 \<leftarrow> availableConnections st anchor i;
     let count0 = card (available0 \<inter> originsVector);
     stops0 \<leftarrow> getStopsCount st originsVector anchor i;
     if count0 < n \<and> outer
     then shoulderLoop st originsMap arr originsVector n g dayOf i js (available0, count0, stops0, 0)
     else Some (available0, count0, stops0, 0)
   }"

text \<open>The airports with a connection of any number of stops in the slot \<open>i\<close> of day \<open>day\<close>.\<close>

definition layerBits :: "storage \<Rightarrow> int \<Rightarrow> nat \<Rightarrow> BitSet" where
  "layerBits st day i = orArg (availableConnections st day i)"

text \<open>
  The airports served on the anchor day or on a shoulder day at a distance below \<open>j\<close>,
  and the origins that are served at distance \<open>j\<close> and not before.
\<close>

definition servedBefore :: "storage \<Rightarrow> int \<Rightarrow> (int \<Rightarrow> int) \<Rightarrow> nat \<Rightarrow> int \<Rightarrow> BitSet" where
  "servedBefore st anchor dayOf i j =
     layerBits st anchor i \<union> (\<Union>k \<in> {1..<j}. layerBits st (dayOf k) i)"

definition firstServed :: "storage \<Rightarrow> BitSet \<Rightarrow> int \<Rightarrow> (int \<Rightarrow> int) \<Rightarrow> nat \<Rightarrow> int \<Rightarrow> BitSet" where
  "firstServed st originsVector anchor dayOf i j =
     (layerBits st (dayOf j) i \<inter> originsVector) - servedBefore st anchor dayOf i j"

text \<open>The count that the shoulder loops read for the airport index \<open>ind\<close>.\<close>

definition countOfIndex :: "ConnectionsStorage \<Rightarrow> OriginInput list \<Rightarrow> nat \<Rightarrow> int" where
  "countOfIndex s origins ind = the (originsMapOf origins (airportsArray s ! ind))"


section \<open>The bit vectors as objects\<close>

text \<open>
  In the definitions above a bit vector is a value, so a ranking cannot change a stored
  vector by construction.  To state that it does not, this section repeats the ranking
  over an explicit object store: the cells of both stores hold the addresses of
  \<^verbatim>\<open>BitSet\<close> objects, and \<open>vectors\<close> maps an address to the bits of the object.  Of the
  methods of the package, \<^verbatim>\<open>set\<close> writes into the receiver, while \<^verbatim>\<open>and\<close>, \<^verbatim>\<open>or\<close>
  and \<^verbatim>\<open>not\<close> clone the receiver and return the changed clone; \<^verbatim>\<open>cardinality\<close> and
  \<^verbatim>\<open>toArray\<close> only read.  The constructor \<^verbatim>\<open>new BitSet(array)\<close> creates an object.
  A new object takes the next unused address \<open>fresh\<close>.
\<close>

type_synonym addr = nat

record ObjStore =
  outboundObjs :: "addr list list list"
  inboundObjs :: "addr list list list"
  airportsObjs :: "(string \<times> nat) list"
  airportsArrayObjs :: "string list"
  startDateObjs :: int
  vectors :: "addr \<Rightarrow> BitSet"
  fresh :: addr

text \<open>
  A computation on the object store: the store it leaves behind and its value, \<open>None\<close>
  when it throws a \<^verbatim>\<open>TypeError\<close>.
\<close>

type_synonym 'a heapM = "ObjStore \<Rightarrow> 'a option \<times> ObjStore"

definition returnH :: "'a \<Rightarrow> 'a heapM" where
  "returnH x s = (Some x, s)"

definition bindH :: "'a heapM \<Rightarrow> ('a \<Rightarrow> 'b heapM) \<Rightarrow> 'b heapM" where
  "bindH m f s = (case m s of (None, s') \<Rightarrow> (None, s') | (Some x, s') \<Rightarrow> f x s')"

definition newObject :: "BitSet \<Rightarrow> addr heapM" where
  "newObject b s = (Some (fresh s), s\<lparr>vectors := (vectors s)(fresh s := b), fresh := Suc (fresh s)\<rparr>)"

definition bsNew :: "nat list \<Rightarrow> addr heapM" where
  "bsNew ndxs s = newObject (set ndxs) s"

definition bsNot :: "addr \<Rightarrow> addr heapM" where
  "bsNot a s = newObject (- vectors s a) s"

definition bsAnd :: "addr \<Rightarrow> addr \<Rightarrow> addr heapM" where
  "bsAnd a b s = newObject (vectors s a \<inter> vectors s b) s"

text \<open>\<^verbatim>\<open>a.or(b)\<close>, where \<open>b\<close> may be \<^verbatim>\<open>undefined\<close>.\<close>

definition bsOr :: "addr \<Rightarrow> addr option \<Rightarrow> addr heapM" where
  "bsOr a b s = newObject (vectors s a \<union> orArg (map_option (vectors s) b)) s"

definition bsCardinality :: "addr \<Rightarrow> nat heapM" where
  "bsCardinality a s = (Some (card (vectors s a)), s)"

definition bsToArray :: "addr \<Rightarrow> nat list heapM" where
  "bsToArray a s = (Some (sorted_list_of_set (vectors s a)), s)"

text \<open>
  The receiver \<^verbatim>\<open>sel[day][a][k]\<close> of a method call, \<open>sel\<close> being one of the two stores.
\<close>

definition readCell :: "(ObjStore \<Rightarrow> addr list list list) \<Rightarrow> int \<Rightarrow> nat \<Rightarrow> int \<Rightarrow> addr heapM" where
  "readCell sel day a k s = (cell (sel s) day a k, s)"

definition prepareOriginVectorObj :: "string list \<Rightarrow> addr heapM" where
  "prepareOriginVectorObj origins s = bsNew (List.map_filter (map_of (airportsObjs s)) origins) s"

definition getStopsCountObj ::
  "(ObjStore \<Rightarrow> addr list list list) \<Rightarrow> addr \<Rightarrow> int \<Rightarrow> nat \<Rightarrow> nat heapM" where
  "getStopsCountObj sel originsVector index destinationIndex =
     bindH (readCell sel index destinationIndex 0) (\<lambda>direct.
     bindH (bsNot direct) (\<lambda>notDirect.
     bindH (bsAnd notDirect originsVector) (\<lambda>directNeg.
     bindH (readCell sel index destinationIndex 1) (\<lambda>oneStop.
     bindH (bsAnd oneStop directNeg) (\<lambda>oneStopNew.
     bindH (bsCardinality oneStopNew) (\<lambda>oneStopCounter.
     bindH (readCell sel index destinationIndex 1) (\<lambda>oneStop'.
     bindH (bsNot oneStop') (\<lambda>oneStopNeg.
     bindH (readCell sel index destinationIndex 2) (\<lambda>twoStop.
     bindH (bsAnd twoStop directNeg) (\<lambda>twoStopNew.
     bindH (bsAnd twoStopNew oneStopNeg) (\<lambda>twoStopNew'.
     bindH (bsCardinality twoStopNew') (\<lambda>twoStopCardinality.
     returnH (oneStopCounter + twoStopCardinality * 2)))))))))))))"

definition getUnavailableOriginsObj :: "addr \<Rightarrow> addr \<Rightarrow> nat \<Rightarrow> string list heapM" where
  "getUnavailableOriginsObj available originsVector currentAirportIndex =
     bindH (bsNot available) (\<lambda>notAvailable.
     bindH (bsAnd notAvailable originsVector) (\<lambda>unavailable.
     bindH (bsToArray unavailable) (\<lambda>indices s.
       (Some (map (\<lambda>arrayIndex. airportsArrayObjs s ! arrayIndex)
                (filter (\<lambda>arrayIndex. arrayIndex \<noteq> currentAirportIndex) indices)), s))))"

definition availableConnectionsObj ::
  "(ObjStore \<Rightarrow> addr list list list) \<Rightarrow> int \<Rightarrow> nat \<Rightarrow> addr heapM" where
  "availableConnectionsObj sel day i =
     bindH (readCell sel day i 0) (\<lambda>b0.
     bindH (\<lambda>s. bsOr b0 (cell (sel s) day i 1) s) (\<lambda>b01 s.
       bsOr b01 (cell (sel s) day i 2) s))"

type_synonym loopStateObj = "addr \<times> nat \<times> nat \<times> int"

definition shoulderNightObj ::
  "(ObjStore \<Rightarrow> addr list list list) \<Rightarrow> (string \<rightharpoonup> int) \<Rightarrow> addr \<Rightarrow> nat \<Rightarrow> int \<Rightarrow> int
     \<Rightarrow> loopStateObj \<Rightarrow> loopStateObj heapM" where
  "shoulderNightObj sel originsMap originsVector i day j v =
     (case v of (available, count', stops', nights) \<Rightarrow>
        bindH (availableConnectionsObj sel day i) (\<lambda>aocSn.
        bindH (bsNot available) (\<lambda>notAvailable.
        bindH (bsAnd notAvailable originsVector) (\<lambda>currentRequiredOrigins.
        bindH (getStopsCountObj sel currentRequiredOrigins day i) (\<lambda>stopsCount.
        bindH (bsAnd aocSn currentRequiredOrigins) (\<lambda>temp.
        bindH (bsCardinality temp) (\<lambda>temporaryCardinality.
        bindH (bsToArray temp) (\<lambda>indices.
        bindH (\<lambda>s. (Some (sumArray (map (\<lambda>ind. the (originsMap (airportsArrayObjs s ! ind)))
                                      indices)), s)) (\<lambda>weight.
        bindH (bsOr available (Some aocSn)) (\<lambda>available'.
        returnH (available', count' + temporaryCardinality, stops' + stopsCount,
                 nights + weight * j)))))))))))"

fun shoulderLoopObj ::
  "(ObjStore \<Rightarrow> addr list list list) \<Rightarrow> (string \<rightharpoonup> int) \<Rightarrow> addr \<Rightarrow> nat \<Rightarrow> bool
     \<Rightarrow> (int \<Rightarrow> int) \<Rightarrow> nat \<Rightarrow> int list \<Rightarrow> loopStateObj \<Rightarrow> loopStateObj heapM" where
  "shoulderLoopObj sel originsMap originsVector n g dayOf i [] v s = (Some v, s)"
| "shoulderLoopObj sel originsMap originsVector n g dayOf i (j # js) v s =
     (if fst (snd v) < n \<and> g
      then (case shoulderNightObj sel originsMap originsVector i (dayOf j) j v s of
              (None, s') \<Rightarrow> (None, s')
            | (Some v', s') \<Rightarrow> shoulderLoopObj sel originsMap originsVector n g dayOf i js v' s')
      else shoulderLoopObj sel originsMap originsVector n g dayOf i js v s)"

definition directionObj ::
  "(ObjStore \<Rightarrow> addr list list list) \<Rightarrow> (string \<rightharpoonup> int) \<Rightarrow> addr \<Rightarrow> nat \<Rightarrow> int \<Rightarrow> bool \<Rightarrow> bool
     \<Rightarrow> (int \<Rightarrow> int) \<Rightarrow> nat \<Rightarrow> int list \<Rightarrow> loopStateObj heapM" where
  "directionObj sel originsMap originsVector n anchor outer g dayOf i js =
     bindH (availableConnectionsObj sel anchor i) (\<lambda>available0.
     bindH (bsAnd available0 originsVector) (\<lambda>served.
     bindH (bsCardinality served) (\<lambda>count0.
     bindH (getStopsCountObj sel originsVector anchor i) (\<lambda>stops0.
       if count0 < n \<and> outer
       then shoulderLoopObj sel originsMap originsVector n g dayOf i js (available0, count0, stops0, 0)
       else returnH (available0, count0, stops0, 0)))))"

definition candidateObj ::
  "OriginInput list \<Rightarrow> addr \<Rightarrow> int \<Rightarrow> int \<Rightarrow> int \<Rightarrow> int \<Rightarrow> nat \<Rightarrow> Destination heapM" where
  "candidateObj origins originsVector outboundIndex inboundIndex
       maxOutboundShoulderNights maxInboundShoulderNights i =
     bindH (directionObj outboundObjs (originsMapOf origins) originsVector (length origins)
              outboundIndex (maxOutboundShoulderNights > 0) True (\<lambda>j. outboundIndex - j) i
              [1..maxOutboundShoulderNights]) (\<lambda>outbound.
     bindH (directionObj inboundObjs (originsMapOf origins) originsVector (length origins)
              inboundIndex True (maxInboundShoulderNights > 0) (\<lambda>j. inboundIndex + j) i
              [1..maxInboundShoulderNights]) (\<lambda>inbound.
     bindH (getUnavailableOriginsObj (fst outbound) originsVector i) (\<lambda>unavailableOutbound.
     bindH (getUnavailableOriginsObj (fst inbound) originsVector i) (\<lambda>unavailableInbound s.
       (Some \<lparr> code = airportsArrayObjs s ! i,
                availableOrigins = fst (snd outbound) + fst (snd inbound),
                totalStops = fst (snd (snd outbound)) + fst (snd (snd inbound)),
                unavailableOutboundOrigins = unavailableOutbound,
                outboundShoulderNights = snd (snd (snd outbound)),
                unavailableInboundOrigins = unavailableInbound,
                inboundShoulderNights = snd (snd (snd inbound)) \<rparr>, s)))))"

fun candidatesObj ::
  "OriginInput list \<Rightarrow> addr \<Rightarrow> int \<Rightarrow> int \<Rightarrow> int \<Rightarrow> int \<Rightarrow> nat list \<Rightarrow> Destination list heapM" where
  "candidatesObj origins originsVector outboundIndex inboundIndex maxOut maxIn [] s = (Some [], s)"
| "candidatesObj origins originsVector outboundIndex inboundIndex maxOut maxIn (i # is) s =
     (case candidateObj origins originsVector outboundIndex inboundIndex maxOut maxIn i s of
        (None, s') \<Rightarrow> (None, s')
      | (Some d, s') \<Rightarrow>
         (case candidatesObj origins originsVector outboundIndex inboundIndex maxOut maxIn is s' of
            (None, s'') \<Rightarrow> (None, s'')
          | (Some ds, s'') \<Rightarrow> (Some (d # ds), s'')))"

definition getDestinationsForDatePairObj ::
  "OriginInput list \<Rightarrow> int \<Rightarrow> int \<Rightarrow> int \<Rightarrow> int \<Rightarrow> int \<Rightarrow> ObjStore
     \<Rightarrow> (error + Destination list) \<times> ObjStore" where
  "getDestinationsForDatePairObj origins meetingStart meetingEnd
       maxOutboundShoulderNights maxInboundShoulderNights take' s =
     (case prepareOriginVectorObj (originsMapKeys origins) s of
        (None, s1) \<Rightarrow> (Inl TypeError, s1)
      | (Some originsVector, s1) \<Rightarrow>
         (let outboundIndex = (meetingStart - startDateObjs s1) div (1000 * 3600 * 24)
          in case validateDateIndex outboundIndex of
               Inl e \<Rightarrow> (Inl e, s1)
             | Inr _ \<Rightarrow>
                (let inboundIndex = (meetingEnd - startDateObjs s1) div (1000 * 3600 * 24)
                 in case validateDateIndex inboundIndex of
                      Inl e \<Rightarrow> (Inl e, s1)
                    | Inr _ \<Rightarrow>
                       (case candidatesObj origins originsVector outboundIndex inboundIndex
                               maxOutboundShoulderNights maxInboundShoulderNights
                               [0..<length (airportsObjs s1)] s1 of
                          (None, s2) \<Rightarrow> (Inl TypeError, s2)
                        | (Some result, s2) \<Rightarrow>
                           (let sorted' = sortResult result
                            in if take' > 0 then (Inr (take (nat take') sorted'), s2)
                               else (Inr sorted', s2))))))"

text \<open>
  The store of values that an object store stands for, and the condition that every
  address in a cell is in use, so that a new object is none of the stored ones.
\<close>

definition storeOf :: "ObjStore \<Rightarrow> ConnectionsStorage" where
  "storeOf s =
     \<lparr> outboundStorage = map (map (map (vectors s))) (outboundObjs s),
       inboundStorage = map (map (map (vectors s))) (inboundObjs s),
       airports = airportsObjs s,
       airportsArray = airportsArrayObjs s,
       startDate = startDateObjs s \<rparr>"

definition allocated :: "ObjStore \<Rightarrow> bool" where
  "allocated s \<longleftrightarrow>
     (\<forall>row \<in> set (outboundObjs s). \<forall>slot \<in> set row. \<forall>a \<in> set slot. a < fresh s) \<and>
     (\<forall>row \<in> set (inboundObjs s). \<forall>slot \<in> set row. \<forall>a \<in> set slot. a < fresh s)"

text \<open>An object store with one airport and no connection.\<close>

definition oneAirport :: ObjStore where
  "oneAirport =
     \<lparr> outboundObjs = map (\<lambda>d. [[3 * d, 3 * d + 1, 3 * d + 2]]) [0..<MAX_DAYS_SUPPORTED],
       inboundObjs = map (\<lambda>d. [[1080 + 3 * d, 1081 + 3 * d, 1082 + 3 * d]]) [0..<MAX_DAYS_SUPPORTED],
       airportsObjs = [(''AAA'', 0)],
       airportsArrayObjs = [''AAA''],
       startDateObjs = january2025 1,
       vectors = (\<lambda>a. {}),
       fresh = 2160 \<rparr>"

text \<open>
  \<open>extends s s'\<close>: from \<open>s\<close> to \<open>s'\<close> nothing has changed but that objects have been
  created; the cells, the registry, the start date and the bits of every object of \<open>s\<close>
  are the same.
\<close>

definition extends :: "ObjStore \<Rightarrow> ObjStore \<Rightarrow> bool" where
  "extends s s' \<longleftrightarrow>
     outboundObjs s' = outboundObjs s \<and> inboundObjs s' = inboundObjs s \<and>
     airportsObjs s' = airportsObjs s \<and> airportsArrayObjs s' = airportsArrayObjs s \<and>
     startDateObjs s' = startDateObjs s \<and>
     fresh s \<le> fresh s' \<and> (\<forall>a<fresh s. vectors s' a = vectors s a)"

text \<open>The two stores that \<open>sel\<close> ranges over.\<close>

definition isStore :: "(ObjStore \<Rightarrow> addr list list list) \<Rightarrow> bool" where
  "isStore sel \<longleftrightarrow> sel = outboundObjs \<or> sel = inboundObjs"

definition valuesOf :: "ObjStore \<Rightarrow> addr list list list \<Rightarrow> storage" where
  "valuesOf s objs = map (map (map (vectors s))) objs"

text \<open>\<open>holds s a b\<close>: at the address \<open>a\<close> the store \<open>s\<close> has an object with the bits \<open>b\<close>.\<close>

definition holds :: "ObjStore \<Rightarrow> addr \<Rightarrow> BitSet \<Rightarrow> bool" where
  "holds s a b \<longleftrightarrow> a < fresh s \<and> vectors s a = b"

text \<open>
  The variables of a shoulder loop over objects stand for those over values: the same
  numbers, and the address of an object with the bits of the available connections.
\<close>

definition loopResult :: "ObjStore \<Rightarrow> loopStateObj option \<Rightarrow> loopState option \<Rightarrow> bool" where
  "loopResult s' res v \<longleftrightarrow>
     (case res of
        None \<Rightarrow> v = None
      | Some (a', c', t', n') \<Rightarrow> (\<exists>A'. holds s' a' A' \<and> v = Some (A', c', t', n')))"

section \<open>Properties of the store\<close>

lemma length_pushAirportSlot [simp]: "length (pushAirportSlot i st) = length st"
  by (simp add: pushAirportSlot_def)

lemma nth_pushAirportSlot:
  "j < length st \<Longrightarrow>
   pushAirportSlot i st ! j = (if j = i then st ! j @ [replicate 3 {}] else st ! j)"
  by (simp add: pushAirportSlot_def nth_list_update)

lemma length_fold_pushAirportSlot [simp]:
  "length (fold pushAirportSlot [0..<n] st) = length st"
  by (induction n) simp_all

lemma nth_fold_pushAirportSlot:
  "i < length st \<Longrightarrow>
   fold pushAirportSlot [0..<n] st ! i = (if i < n then st ! i @ [replicate 3 {}] else st ! i)"
  by (induction n) (auto simp: nth_pushAirportSlot less_Suc_eq)

lemma cell_fold_pushAirportSlot:
  "cell (fold pushAirportSlot [0..<MAX_DAYS_SUPPORTED] st) d a k =
     (if 0 \<le> d \<and> nat d < length st \<and> d < 360 \<and> a = length (st ! nat d) \<and> 0 \<le> k \<and> k < 3
      then Some {} else cell st d a k)"
  by (auto simp: cell_def nth_fold_pushAirportSlot nth_append less_Suc_eq)

lemma setBit_SomeD:
  assumes "setBit st d a k x = Some st'"
  shows "0 \<le> d" "nat d < length st" "a < length (st ! nat d)" "0 \<le> k"
    "nat k < length (st ! nat d ! a)"
    "st' = st[nat d := (st ! nat d)[a := (st ! nat d ! a)[nat k := insert x (st ! nat d ! a ! nat k)]]]"
  using assms by (simp_all add: setBit_def cell_def split: if_splits)

lemma cell_setBit:
  assumes "setBit st d a k x = Some st'"
  shows "cell st' d' a' k' =
     (if d' = d \<and> a' = a \<and> k' = k then map_option (insert x) (cell st d a k) else cell st d' a' k')"
proof -
  note D = setBit_SomeD [OF assms]
  show ?thesis
  proof (cases "0 \<le> d' \<and> 0 \<le> k'")
    case False
    then show ?thesis using D by (auto simp: cell_def)
  next
    case True
    then have eq: "nat d = nat d' \<longleftrightarrow> d' = d" "nat k = nat k' \<longleftrightarrow> k' = k"
      using D(1,4) by auto
    show ?thesis
      unfolding cell_def D(6) using D(1-5) True
      by (auto simp: nth_list_update eq)
  qed
qed

lemma setBit_idem:
  assumes "setBit st d a k x = Some st'"
  shows "setBit st' d a k x = Some st'"
proof -
  note D = setBit_SomeD [OF assms]
  have c: "cell st' d a k = Some (insert x (st ! nat d ! a ! nat k))"
    using cell_setBit [OF assms, of d a k] D(1-5) by (simp add: cell_def)
  show ?thesis
    unfolding setBit_def c using D(2,3,5) by (simp add: D(6))
qed

lemma setBit_Some_iff: "(\<exists>st'. setBit st d a k x = Some st') \<longleftrightarrow> cell st d a k \<noteq> None"
  by (auto simp: setBit_def split: option.splits)

subsection \<open>Registry\<close>

lemma addAirport_registered:
  "map_of (airports (snd (addAirport c s))) c \<noteq> None"
  by (auto simp: addAirport_def map_add_Some_iff)

lemma addAirport_lookup_kept:
  "map_of (airports s) c = Some i \<Longrightarrow> map_of (airports (snd (addAirport c' s))) c = Some i"
  by (auto simp: addAirport_def map_add_Some_iff)

lemma addAirport_registered_noop:
  "map_of (airports s) c \<noteq> None \<Longrightarrow> addAirport c s = (False, s)"
  by (simp add: addAirport_def)

lemma addAirport_startDate [simp]: "startDate (snd (addAirport c s)) = startDate s"
  by (simp add: addAirport_def)

lemma wfStorage_nth:
  "wfStorage n st \<longleftrightarrow>
     length st = 360 \<and> (\<forall>d<360. length (st ! d) = n \<and> (\<forall>a<n. length (st ! d ! a) = 3))"
  unfolding wfStorage_def all_set_conv_all_nth by auto

lemma cell_wfStorage:
  "wfStorage n st \<Longrightarrow>
   cell st d a k =
     (if 0 \<le> d \<and> d < 360 \<and> a < n \<and> 0 \<le> k \<and> k < 3 then Some (st ! nat d ! a ! nat k) else None)"
  by (auto simp: wfStorage_nth cell_def)

lemma wfStorage_replicate: "wfStorage 0 (replicate 360 [])"
  by (subst wfStorage_nth) simp

lemma wf_init: "wf (init d)"
  by (simp add: wf_def init_def wfStorage_replicate)

lemma wfStorage_addSlots:
  assumes "wfStorage n st"
  shows "wfStorage (Suc n) (fold pushAirportSlot [0..<360] st)"
  using assms unfolding wfStorage_nth
  by (auto simp: nth_fold_pushAirportSlot nth_append less_Suc_eq)

lemma wfStorage_setBit:
  assumes "wfStorage n st" "setBit st d a k x = Some st'"
  shows "wfStorage n st'"
proof -
  note D = setBit_SomeD [OF assms(2)]
  have "length (st' ! da) = n \<and> (\<forall>a<n. length (st' ! da ! a) = 3)" if "da < 360" for da
    using assms(1) that unfolding wfStorage_nth D(6)
    by (cases "da = nat d"; cases "a < n") (auto simp: nth_list_update)
  then show ?thesis using assms(1) unfolding wfStorage_nth by (simp add: D(6))
qed

lemma wf_lookup:
  assumes "wf s"
  shows "map_of (airports s) c = Some i \<longleftrightarrow> i < length (airportsArray s) \<and> airportsArray s ! i = c"
proof -
  have a: "airports s = zip (airportsArray s) [0..<length (airportsArray s)]"
    and d: "distinct (airportsArray s)"
    using assms by (simp_all add: wf_def)
  show ?thesis
  proof
    assume "map_of (airports s) c = Some i"
    then have "(c, i) \<in> set (zip (airportsArray s) [0..<length (airportsArray s)])"
      unfolding a by (rule map_of_SomeD)
    then show "i < length (airportsArray s) \<and> airportsArray s ! i = c"
      by (auto simp: in_set_zip)
  next
    assume h: "i < length (airportsArray s) \<and> airportsArray s ! i = c"
    have "map_of (zip (airportsArray s) [0..<length (airportsArray s)]) (airportsArray s ! i)
            = Some ([0..<length (airportsArray s)] ! i)"
      using h d by (intro map_of_zip_nth) simp_all
    then show "map_of (airports s) c = Some i"
      using h a by simp
  qed
qed

lemma wf_length_airports: "wf s \<Longrightarrow> length (airports s) = length (airportsArray s)"
  by (simp add: wf_def)

lemma wf_lookup_None:
  assumes "wf s"
  shows "map_of (airports s) c = None \<longleftrightarrow> c \<notin> set (airportsArray s)"
proof -
  have "fst ` set (airports s) = set (airportsArray s)"
    using assms by (simp add: wf_def flip: set_map)
  then show ?thesis by (simp add: map_of_eq_None_iff)
qed

lemma wf_addAirport:
  assumes "wf s"
  shows "wf (snd (addAirport c s))"
proof (cases "map_of (airports s) c = None")
  case False
  then show ?thesis using assms by (simp add: addAirport_def)
next
  case True
  then have "c \<notin> set (airportsArray s)" using assms by (simp add: wf_lookup_None)
  then show ?thesis
    using assms True
    by (simp add: addAirport_def wf_def wfStorage_addSlots)
qed

subsection \<open>The shape of a \<^verbatim>\<open>setConnection\<close> call\<close>

lemma convertDateToArrayIndex_eq:
  "convertDateToArrayIndex s d =
     (if dayIndex s d < 0 \<or> dayIndex s d > 360 then Inl DateOutOfRange else Inr (dayIndex s d))"
  by (simp add: convertDateToArrayIndex_def validateDateIndex_def dayIndex_def Let_def)

lemma withAirports_startDate [simp]: "startDate (withAirports c s) = startDate s"
  by (simp add: withAirports_def)

lemma dayIndex_withAirports [simp]: "dayIndex (withAirports c s) d = dayIndex s d"
  by (simp add: dayIndex_def)

lemma withAirports_origin:
  "map_of (airports (withAirports c s)) (originAirportCode c) \<noteq> None"
proof -
  obtain i where "map_of (airports (snd (addAirport (originAirportCode c) s))) (originAirportCode c) = Some i"
    using addAirport_registered [of "originAirportCode c" s] by auto
  then show ?thesis
    unfolding withAirports_def by (simp add: addAirport_lookup_kept)
qed

lemma withAirports_destination:
  "map_of (airports (withAirports c s)) (destinationAirportCode c) \<noteq> None"
  unfolding withAirports_def by (rule addAirport_registered)

lemma withAirports_lookup_kept:
  "map_of (airports s) x = Some i \<Longrightarrow> map_of (airports (withAirports c s)) x = Some i"
  unfolding withAirports_def by (simp add: addAirport_lookup_kept)

lemma withAirports_idem: "withAirports c (withAirports c s) = withAirports c s"
proof -
  have 1: "addAirport (originAirportCode c) (withAirports c s) = (False, withAirports c s)"
    by (rule addAirport_registered_noop) (rule withAirports_origin)
  have 2: "addAirport (destinationAirportCode c) (withAirports c s) = (False, withAirports c s)"
    by (rule addAirport_registered_noop) (rule withAirports_destination)
  show ?thesis
    by (subst withAirports_def) (simp add: 1 2)
qed

text \<open>
  The five ways in which a call ends: the stops are rejected; a date is rejected; the
  first write fails; the second write fails; both bits are written.
\<close>

lemma setConnection_eq:
  "setConnection c s =
     (if stops c < 0 \<or> stops c > 2 then (Inl InvalidStops, s)
      else if dayIndex s (date c) < 0 \<or> dayIndex s (date c) > 360
              \<or> dayIndex s (date c) + arriveNextDay c < 0
              \<or> dayIndex s (date c) + arriveNextDay c > 360
      then (Inl DateOutOfRange, withAirports c s)
      else case setBit (outboundStorage (withAirports c s)) (dayIndex s (date c) + arriveNextDay c)
                  (the (map_of (airports (withAirports c s)) (destinationAirportCode c))) (stops c)
                  (the (map_of (airports (withAirports c s)) (originAirportCode c))) of
             None \<Rightarrow> (Inl TypeError, withAirports c s)
           | Some ob \<Rightarrow>
              (case setBit (inboundStorage (withAirports c s)) (dayIndex s (date c))
                      (the (map_of (airports (withAirports c s)) (originAirportCode c))) (stops c)
                      (the (map_of (airports (withAirports c s)) (destinationAirportCode c))) of
                 None \<Rightarrow> (Inl TypeError, (withAirports c s)\<lparr>outboundStorage := ob\<rparr>)
               | Some ib \<Rightarrow>
                   (Inr (), (withAirports c s)\<lparr>outboundStorage := ob, inboundStorage := ib\<rparr>)))"
proof -
  obtain oi where o: "map_of (airports (withAirports c s)) (originAirportCode c) = Some oi"
    using withAirports_origin [of c s] by auto
  obtain di where d: "map_of (airports (withAirports c s)) (destinationAirportCode c) = Some di"
    using withAirports_destination [of c s] by auto
  have fold: "snd (addAirport (destinationAirportCode c) (snd (addAirport (originAirportCode c) s)))
                = withAirports c s"
    by (simp add: withAirports_def)
  show ?thesis
    unfolding setConnection_def Let_def fold convertDateToArrayIndex_eq o d
    by (simp add: validateStops_def validateDateIndex_def split: option.splits)
qed

subsection \<open>Calls on a well-formed store\<close>

lemma wf_withAirports: "wf s \<Longrightarrow> wf (withAirports c s)"
  unfolding withAirports_def by (intro wf_addAirport)

lemma wf_update_storage:
  assumes "wf s" "wfStorage (length (airportsArray s)) ob" "wfStorage (length (airportsArray s)) ib"
  shows "wf (s\<lparr>outboundStorage := ob\<rparr>)" "wf (s\<lparr>outboundStorage := ob, inboundStorage := ib\<rparr>)"
  using assms by (simp_all add: wf_def)

lemma wf_setConnection:
  assumes "wf s"
  shows "wf (snd (setConnection c s))"
proof -
  let ?w = "withAirports c s"
  have w: "wf ?w" using assms by (rule wf_withAirports)
  then have wo: "wfStorage (length (airportsArray ?w)) (outboundStorage ?w)"
    and wi: "wfStorage (length (airportsArray ?w)) (inboundStorage ?w)"
    by (simp_all add: wf_def)
  show ?thesis
    unfolding setConnection_eq
    using assms w wf_update_storage [OF w wfStorage_setBit [OF wo] wi]
      wf_update_storage(2) [OF w wfStorage_setBit [OF wo] wfStorage_setBit [OF wi]]
    by (auto split: option.splits)
qed

lemma wf_setConnections: "wf s \<Longrightarrow> wf (setConnections cs s)"
  unfolding setConnections_def
  by (induction cs arbitrary: s) (simp_all add: wf_setConnection)

lemma wf_fixture: "wf fixture"
  unfolding fixture_def by (intro wf_setConnections wf_init)

lemma wf_lookup_less:
  "wf s \<Longrightarrow> map_of (airports s) c = Some i \<Longrightarrow> i < length (airportsArray s)"
  by (simp add: wf_lookup)

text \<open>On a well-formed store, a connection with valid stops and days is stored.\<close>

lemma setConnection_ok:
  assumes "wf s" "0 \<le> stops c" "stops c \<le> 2"
    and "0 \<le> dayIndex s (date c)" "dayIndex s (date c) < 360"
    and "0 \<le> dayIndex s (date c) + arriveNextDay c" "dayIndex s (date c) + arriveNextDay c < 360"
  shows "fst (setConnection c s) = Inr ()"
proof -
  let ?w = "withAirports c s"
  have w: "wf ?w" using assms(1) by (rule wf_withAirports)
  then have wo: "wfStorage (length (airportsArray ?w)) (outboundStorage ?w)"
    and wi: "wfStorage (length (airportsArray ?w)) (inboundStorage ?w)"
    by (simp_all add: wf_def)
  obtain oi where o: "map_of (airports ?w) (originAirportCode c) = Some oi"
    using withAirports_origin [of c s] by auto
  obtain di where d: "map_of (airports ?w) (destinationAirportCode c) = Some di"
    using withAirports_destination [of c s] by auto
  have lt: "oi < length (airportsArray ?w)" "di < length (airportsArray ?w)"
    using wf_lookup_less [OF w] o d by auto
  have "cell (outboundStorage ?w) (dayIndex s (date c) + arriveNextDay c) di (stops c) \<noteq> None"
    using assms lt by (simp add: cell_wfStorage [OF wo])
  then obtain ob where ob: "setBit (outboundStorage ?w) (dayIndex s (date c) + arriveNextDay c) di
      (stops c) oi = Some ob"
    using setBit_Some_iff by blast
  have "cell (inboundStorage ?w) (dayIndex s (date c)) oi (stops c) \<noteq> None"
    using assms lt by (simp add: cell_wfStorage [OF wi])
  then obtain ib where ib: "setBit (inboundStorage ?w) (dayIndex s (date c)) oi (stops c) di = Some ib"
    using setBit_Some_iff by blast
  show ?thesis
    unfolding setConnection_eq using assms by (simp add: o d ob ib)
qed

text \<open>What a successful call has done.\<close>

lemma setConnection_InrD:
  assumes "fst (setConnection c s) = Inr ()"
  obtains oi di ob ib where
    "0 \<le> stops c" "stops c \<le> 2"
    "0 \<le> dayIndex s (date c)" "dayIndex s (date c) \<le> 360"
    "0 \<le> dayIndex s (date c) + arriveNextDay c" "dayIndex s (date c) + arriveNextDay c \<le> 360"
    "map_of (airports (withAirports c s)) (originAirportCode c) = Some oi"
    "map_of (airports (withAirports c s)) (destinationAirportCode c) = Some di"
    "setBit (outboundStorage (withAirports c s)) (dayIndex s (date c) + arriveNextDay c) di (stops c) oi
       = Some ob"
    "setBit (inboundStorage (withAirports c s)) (dayIndex s (date c)) oi (stops c) di = Some ib"
    "snd (setConnection c s) = (withAirports c s)\<lparr>outboundStorage := ob, inboundStorage := ib\<rparr>"
proof -
  obtain oi where o: "map_of (airports (withAirports c s)) (originAirportCode c) = Some oi"
    using withAirports_origin [of c s] by auto
  obtain di where d: "map_of (airports (withAirports c s)) (destinationAirportCode c) = Some di"
    using withAirports_destination [of c s] by auto
  from assms that [OF _ _ _ _ _ _ o d] show thesis
    unfolding setConnection_eq o d
    by (auto split: if_splits option.splits)
qed

lemma withAirports_noop:
  assumes "map_of (airports s) (originAirportCode c) \<noteq> None"
    and "map_of (airports s) (destinationAirportCode c) \<noteq> None"
  shows "withAirports c s = s"
  unfolding withAirports_def
  by (simp add: addAirport_registered_noop assms)

text \<open>
  Claim C8 (idempotence).  For every store and every connection on which
  \<^verbatim>\<open>setConnection\<close> succeeds, a second call with the same connection succeeds too and
  leaves the whole store (registry, airports array, both bit stores, start date) as the
  first call left it.
\<close>

theorem setConnection_idempotent:
  assumes "fst (setConnection c s) = Inr ()"
  shows "setConnection c (snd (setConnection c s)) = (Inr (), snd (setConnection c s))"
proof -
  from assms obtain oi di ob ib where h:
    "0 \<le> stops c" "stops c \<le> 2"
    "0 \<le> dayIndex s (date c)" "dayIndex s (date c) \<le> 360"
    "0 \<le> dayIndex s (date c) + arriveNextDay c" "dayIndex s (date c) + arriveNextDay c \<le> 360"
    "map_of (airports (withAirports c s)) (originAirportCode c) = Some oi"
    "map_of (airports (withAirports c s)) (destinationAirportCode c) = Some di"
    "setBit (outboundStorage (withAirports c s)) (dayIndex s (date c) + arriveNextDay c) di (stops c) oi
       = Some ob"
    "setBit (inboundStorage (withAirports c s)) (dayIndex s (date c)) oi (stops c) di = Some ib"
    "snd (setConnection c s) = (withAirports c s)\<lparr>outboundStorage := ob, inboundStorage := ib\<rparr>"
    by (rule setConnection_InrD)
  define t where "t = snd (setConnection c s)"
  have a: "airports t = airports (withAirports c s)" "startDate t = startDate s"
    "outboundStorage t = ob" "inboundStorage t = ib"
    by (simp_all add: t_def h(11))
  have w: "withAirports c t = t"
    by (rule withAirports_noop) (simp_all add: a h(7,8))
  have di: "dayIndex t (date c) = dayIndex s (date c)"
    by (simp add: dayIndex_def a)
  have t: "t\<lparr>outboundStorage := ob, inboundStorage := ib\<rparr> = t"
    using a(3,4) by simp
  have "setConnection c t = (Inr (), t)"
    by (subst setConnection_eq)
      (use h(1-6) in \<open>simp add: w di a h(7,8) setBit_idem [OF h(9)] setBit_idem [OF h(10)] t\<close>)
  then show ?thesis by (simp add: t_def)
qed

subsection \<open>Concrete calls on the empty store\<close>

lemma dayIndex_init_january: "dayIndex (init (january2025 1)) (january2025 n) = n - 1"
  by (simp add: dayIndex_def init_def january2025_def)

lemma connection_simps [simp]:
  "originAirportCode (connection a b d k n) = a"
  "destinationAirportCode (connection a b d k n) = b"
  "date (connection a b d k n) = d"
  "stops (connection a b d k n) = k"
  "arriveNextDay (connection a b d k n) = n"
  by (simp_all add: connection_def)

lemma first_connection_ok:
  "fst (setConnection (connection ''AAA'' ''CCC'' (january2025 9) 2 0) (init (january2025 1))) = Inr ()"
  by (rule setConnection_ok) (simp_all add: wf_init dayIndex_init_january)

theorem setConnection_idempotent_witness:
  "fst (setConnection (connection ''AAA'' ''CCC'' (january2025 9) 2 0) (init (january2025 1))) = Inr ()
   \<and> setConnection (connection ''AAA'' ''CCC'' (january2025 9) 2 0)
        (snd (setConnection (connection ''AAA'' ''CCC'' (january2025 9) 2 0) (init (january2025 1))))
      = (Inr (), snd (setConnection (connection ''AAA'' ''CCC'' (january2025 9) 2 0)
                        (init (january2025 1))))"
  using setConnection_idempotent [OF first_connection_ok] first_connection_ok by simp

subsection \<open>Day index 360\<close>

lemma setConnection_day_360:
  assumes "wf s" "0 \<le> stops c" "stops c \<le> 2"
    and "0 \<le> dayIndex s (date c)" "dayIndex s (date c) \<le> 360"
    and "0 \<le> dayIndex s (date c) + arriveNextDay c" "dayIndex s (date c) + arriveNextDay c \<le> 360"
    and "dayIndex s (date c) = 360 \<or> dayIndex s (date c) + arriveNextDay c = 360"
  shows "fst (setConnection c s) = Inl TypeError"
proof -
  let ?w = "withAirports c s"
  have w: "wf ?w" using assms(1) by (rule wf_withAirports)
  then have wo: "wfStorage (length (airportsArray ?w)) (outboundStorage ?w)"
    and wi: "wfStorage (length (airportsArray ?w)) (inboundStorage ?w)"
    by (simp_all add: wf_def)
  have o: "setBit (outboundStorage ?w) 360 a k x = None" for a k x
    by (simp add: setBit_def cell_wfStorage [OF wo])
  have i: "setBit (inboundStorage ?w) 360 a k x = None" for a k x
    by (simp add: setBit_def cell_wfStorage [OF wi])
  show ?thesis
    unfolding setConnection_eq using assms(2-) o i
    by (auto split: option.splits)
qed

lemma bitsOf_fold_pushAirportSlot:
  "bitsOf (fold pushAirportSlot [0..<360] st) d a k = bitsOf st d a k"
  unfolding bitsOf_def using cell_fold_pushAirportSlot [of st d a k]
  by (auto simp: orArg_def cell_def)

lemma bitsOf_addAirport:
  "bitsOf (outboundStorage (snd (addAirport c s))) d a k = bitsOf (outboundStorage s) d a k"
  "bitsOf (inboundStorage (snd (addAirport c s))) d a k = bitsOf (inboundStorage s) d a k"
  by (simp_all add: addAirport_def bitsOf_fold_pushAirportSlot)

lemma bitsOf_withAirports:
  "bitsOf (outboundStorage (withAirports c s)) d a k = bitsOf (outboundStorage s) d a k"
  "bitsOf (inboundStorage (withAirports c s)) d a k = bitsOf (inboundStorage s) d a k"
  by (simp_all add: withAirports_def bitsOf_addAirport)

lemma dom_addAirport:
  "dom (map_of (airports (snd (addAirport c s)))) = insert c (dom (map_of (airports s)))"
  by (auto simp: addAirport_def dom_map_of_conv_image_fst dest: map_of_SomeD intro: rev_image_eqI)

lemma dom_withAirports:
  "dom (map_of (airports (withAirports c s)))
     = dom (map_of (airports s)) \<union> {originAirportCode c, destinationAirportCode c}"
  by (auto simp: withAirports_def dom_addAirport)





subsection \<open>Bits and lookups are never lost\<close>




subsection \<open>Failing calls\<close>

lemma airports_withAirports_init:
  "a \<noteq> b \<Longrightarrow> airports (withAirports (connection a b d k n) (init d0)) = [(a, 0), (b, 1)]"
  by (simp add: withAirports_def addAirport_def init_def)

lemma early_connection_fails:
  "setConnection (connection ''AAA'' ''BBB'' (january2025 0) 0 0) (init (january2025 1))
     = (Inl DateOutOfRange, withAirports (connection ''AAA'' ''BBB'' (january2025 0) 0 0)
          (init (january2025 1)))"
  by (subst setConnection_eq) (simp add: dayIndex_init_january)

text \<open>
  Claim C2 does not hold: a connection dated the day before the start date is rejected
  with the date error, and the registry, empty before the call, holds both airports
  afterwards.
\<close>

theorem setConnection_failure_registers_airports:
  "fst (setConnection (connection ''AAA'' ''BBB'' (january2025 0) 0 0) (init (january2025 1)))
     = Inl DateOutOfRange
   \<and> airports (init (january2025 1)) = []
   \<and> airports (snd (setConnection (connection ''AAA'' ''BBB'' (january2025 0) 0 0)
        (init (january2025 1)))) = [(''AAA'', 0), (''BBB'', 1)]"
  by (simp add: early_connection_fails airports_withAirports_init) (simp add: init_def)

text \<open>
  Claim C2, amended.  A call that fails the validation of the stops leaves the whole
  store as it was.  A call that fails with the date error sets no bit: the start date
  is the same and at every position of both stores the one bits are those from before
  the call (a vector created by the call is empty); but the call has run both
  \<^verbatim>\<open>addAirport\<close>s, so the origin and the destination code are registered afterwards,
  every code registered before keeping its index.
\<close>

theorem setConnection_failure_state:
  "(fst (setConnection c s) = Inl InvalidStops \<longrightarrow> snd (setConnection c s) = s) \<and>
   (fst (setConnection c s) = Inl DateOutOfRange \<longrightarrow>
      snd (setConnection c s) = withAirports c s \<and>
      startDate (snd (setConnection c s)) = startDate s \<and>
      (\<forall>d a k. bitsOf (outboundStorage (snd (setConnection c s))) d a k
                 = bitsOf (outboundStorage s) d a k) \<and>
      (\<forall>d a k. bitsOf (inboundStorage (snd (setConnection c s))) d a k
                 = bitsOf (inboundStorage s) d a k) \<and>
      dom (map_of (airports (snd (setConnection c s))))
        = dom (map_of (airports s)) \<union> {originAirportCode c, destinationAirportCode c} \<and>
      (\<forall>x i. map_of (airports s) x = Some i
                \<longrightarrow> map_of (airports (snd (setConnection c s))) x = Some i))"
proof -
  have 1: "fst (setConnection c s) = Inl InvalidStops \<Longrightarrow> snd (setConnection c s) = s"
    unfolding setConnection_eq by (auto split: if_splits option.splits)
  have 2: "fst (setConnection c s) = Inl DateOutOfRange \<Longrightarrow> snd (setConnection c s) = withAirports c s"
    unfolding setConnection_eq by (auto split: if_splits option.splits)
  show ?thesis
    using 1 2
    by (auto simp: bitsOf_withAirports dom_withAirports withAirports_lookup_kept)
qed

theorem setConnection_failure_state_witness:
  "fst (setConnection (connection ''AAA'' ''BBB'' (january2025 0) 0 0) (init (january2025 1)))
     = Inl DateOutOfRange
   \<and> (\<forall>d a k. bitsOf (outboundStorage (snd (setConnection
          (connection ''AAA'' ''BBB'' (january2025 0) 0 0) (init (january2025 1))))) d a k
        = bitsOf (outboundStorage (init (january2025 1))) d a k)
   \<and> dom (map_of (airports (snd (setConnection
          (connection ''AAA'' ''BBB'' (january2025 0) 0 0) (init (january2025 1))))))
        = {''AAA'', ''BBB''}"
  using setConnection_failure_state [of "connection ''AAA'' ''BBB'' (january2025 0) 0 0"
      "init (january2025 1)"]
  by (simp add: early_connection_fails) (simp add: init_def)

text \<open>When the code throws the date error: the bound 360 itself is let through.\<close>

lemma setConnection_date_error_iff:
  "fst (setConnection c s) = Inl DateOutOfRange \<longleftrightarrow>
     0 \<le> stops c \<and> stops c \<le> 2 \<and>
     (dayIndex s (date c) < 0 \<or> 360 < dayIndex s (date c)
      \<or> dayIndex s (date c) + arriveNextDay c < 0 \<or> 360 < dayIndex s (date c) + arriveNextDay c)"
  unfolding setConnection_eq by (auto split: option.splits)

text \<open>
  Claim C3 fails on the code.  \<^verbatim>\<open>_validateDateIndex\<close> rejects an index with
  \<^verbatim>\<open>index > MAX_DAYS_SUPPORTED\<close>, so the index 360 passes although the stores have the
  rows 0 to 359 only (lemma \<open>setConnection_date_error_iff\<close>).  A connection that departs 360 days after the start date is not
  rejected with the date error: it passes both date validations and the write throws a
  \<^verbatim>\<open>TypeError\<close>.
\<close>

theorem setConnection_day_360_no_date_error:
  "dayIndex (init (january2025 1)) (january2025 361) = 360
   \<and> fst (setConnection (connection ''AAA'' ''BBB'' (january2025 361) 0 0) (init (january2025 1)))
       = Inl TypeError
   \<and> fst (setConnection (connection ''AAA'' ''BBB'' (january2025 361) 0 0) (init (january2025 1)))
       \<noteq> Inl DateOutOfRange"
proof -
  have "fst (setConnection (connection ''AAA'' ''BBB'' (january2025 361) 0 0) (init (january2025 1)))
       = Inl TypeError"
    by (rule setConnection_day_360) (simp_all add: wf_init dayIndex_init_january)
  then show ?thesis by (simp add: dayIndex_init_january)
qed

text \<open>
  Claim C10 fails on the code for the same reason as C3.  The lookups of both codes
  succeed after the two \<^verbatim>\<open>addAirport\<close> calls (lemmas \<open>withAirports_origin\<close> and
  \<open>withAirports_destination\<close>), so the early return is never taken; but a call that arrives
  on day index 360 passes the validation of the stops and both validations of the date
  and writes neither bit: the first write throws a \<^verbatim>\<open>TypeError\<close>.
\<close>

theorem setConnection_validated_call_writes_nothing:
  "validateStops (stops (connection ''AAA'' ''BBB'' (january2025 360) 1 1)) = Inr ()
   \<and> convertDateToArrayIndex (init (january2025 1))
        (date (connection ''AAA'' ''BBB'' (january2025 360) 1 1)) = Inr 359
   \<and> validateDateIndex (359 + arriveNextDay (connection ''AAA'' ''BBB'' (january2025 360) 1 1)) = Inr ()
   \<and> fst (setConnection (connection ''AAA'' ''BBB'' (january2025 360) 1 1) (init (january2025 1)))
        = Inl TypeError
   \<and> bitsOf (outboundStorage (snd (setConnection (connection ''AAA'' ''BBB'' (january2025 360) 1 1)
        (init (january2025 1))))) d a k = {}
   \<and> bitsOf (inboundStorage (snd (setConnection (connection ''AAA'' ''BBB'' (january2025 360) 1 1)
        (init (january2025 1))))) d a k = {}"
proof -
  let ?c = "connection ''AAA'' ''BBB'' (january2025 360) 1 1"
  let ?s = "init (january2025 1)"
  have w: "wf (withAirports ?c ?s)" by (intro wf_withAirports wf_init)
  then have wo: "wfStorage (length (airportsArray (withAirports ?c ?s))) (outboundStorage (withAirports ?c ?s))"
    by (simp add: wf_def)
  have none: "setBit (outboundStorage (withAirports ?c ?s)) 360 a' k' x = None" for a' k' x
    by (simp add: setBit_def cell_wfStorage [OF wo])
  have r: "setConnection ?c ?s = (Inl TypeError, withAirports ?c ?s)"
    by (subst setConnection_eq) (simp add: dayIndex_init_january none)
  have e: "bitsOf (replicate 360 []) d a k = {}"
    by (simp add: bitsOf_def orArg_def cell_wfStorage [OF wfStorage_replicate])
  show ?thesis
    by (simp add: r bitsOf_withAirports convertDateToArrayIndex_eq dayIndex_init_january
        validateStops_def validateDateIndex_def)
      (simp add: init_def e)
qed

section \<open>Properties of the ranking\<close>

subsection \<open>The shoulder loop\<close>

lemma shoulderLoop_append:
  "shoulderLoop st om arr ov n g dayOf i (js @ ks) v =
     (case shoulderLoop st om arr ov n g dayOf i js v of
        None \<Rightarrow> None
      | Some v' \<Rightarrow> shoulderLoop st om arr ov n g dayOf i ks v')"
  by (induction js arbitrary: v) (auto split: option.splits bind_splits)

lemma shoulderLoop_skip:
  "\<not> (fst (snd v) < n \<and> g) \<Longrightarrow> shoulderLoop st om arr ov n g dayOf i js v = Some v"
  by (induction js) auto

lemma shoulderNight_count:
  "shoulderNight st om arr ov i day j v = Some v' \<Longrightarrow> fst (snd v) \<le> fst (snd v')"
  by (auto simp: shoulderNight_def Let_def split: prod.splits bind_splits)

lemma shoulderLoop_count:
  "shoulderLoop st om arr ov n g dayOf i js v = Some v' \<Longrightarrow> fst (snd v) \<le> fst (snd v')"
proof (induction js arbitrary: v)
  case Nil
  then show ?case by simp
next
  case (Cons j js)
  show ?case
  proof (cases "fst (snd v) < n \<and> g")
    case True
    with Cons.prems obtain w where w: "shoulderNight st om arr ov i (dayOf j) j v = Some w"
      and l: "shoulderLoop st om arr ov n g dayOf i js w = Some v'"
      by (auto split: bind_splits)
    from shoulderNight_count [OF w] Cons.IH [OF l] show ?thesis by simp
  next
    case False
    with Cons.prems Cons.IH [of v] show ?thesis by simp
  qed
qed

lemma direction_normal:
  assumes "outer \<and> g \<longleftrightarrow> 0 < m"
  shows "direction st om arr ov n anchor outer g dayOf i [1..m] =
         direction st om arr ov n anchor True True dayOf i [1..m]"
proof (cases "0 < m")
  case True
  then show ?thesis using assms by simp
next
  case False
  then have "[1..m] = []" by simp
  then show ?thesis
    by (simp add: direction_def Let_def cong: if_cong)
qed

lemma direction_loop:
  "direction st om arr ov n anchor True True dayOf i js =
     (case availableConnections st anchor i of
        None \<Rightarrow> None
      | Some a0 \<Rightarrow>
         (case getStopsCount st ov anchor i of
            None \<Rightarrow> None
          | Some t0 \<Rightarrow> shoulderLoop st om arr ov n True dayOf i js (a0, card (a0 \<inter> ov), t0, 0)))"
  by (auto simp: direction_def Let_def shoulderLoop_skip split: option.splits)

lemma candidate_eq:
  "candidate s origins ov obi ibi mo mi i =
     (case direction (outboundStorage s) (originsMapOf origins) (airportsArray s) ov (length origins)
             obi (mo > 0) True (\<lambda>j. obi - j) i [1..mo] of
        None \<Rightarrow> None
      | Some (ao, co, so, no) \<Rightarrow>
         (case direction (inboundStorage s) (originsMapOf origins) (airportsArray s) ov (length origins)
                 ibi True (mi > 0) (\<lambda>j. ibi + j) i [1..mi] of
            None \<Rightarrow> None
          | Some (ai, ci, si, ni) \<Rightarrow>
              Some \<lparr> code = airportsArray s ! i,
                     availableOrigins = co + ci,
                     totalStops = so + si,
                     unavailableOutboundOrigins = getUnavailableOrigins s ao ov i,
                     outboundShoulderNights = no,
                     unavailableInboundOrigins = getUnavailableOrigins s ai ov i,
                     inboundShoulderNights = ni \<rparr>))"
  unfolding candidate_def direction_def getOutboundStopsCount_def getInboundStopsCount_def Let_def
  by (auto split: option.splits bind_splits prod.splits if_splits)

lemma direction_mono:
  assumes g1: "outer1 \<and> g1 \<longleftrightarrow> 0 < m1" and g2: "outer2 \<and> g2 \<longleftrightarrow> 0 < m2" and le: "m1 \<le> m2"
    and r1: "direction st om arr ov n anchor outer1 g1 dayOf i [1..m1] = Some w1"
    and r2: "direction st om arr ov n anchor outer2 g2 dayOf i [1..m2] = Some w2"
  shows "fst (snd w1) \<le> fst (snd w2)"
proof -
  from r1 obtain a0 t0 where a0: "availableConnections st anchor i = Some a0"
    and t0: "getStopsCount st ov anchor i = Some t0"
    and l1: "shoulderLoop st om arr ov n True dayOf i [1..m1] (a0, card (a0 \<inter> ov), t0, 0) = Some w1"
    unfolding direction_normal [OF g1] direction_loop by (auto split: option.splits)
  from r2 a0 t0
  have l2: "shoulderLoop st om arr ov n True dayOf i [1..m2] (a0, card (a0 \<inter> ov), t0, 0) = Some w2"
    unfolding direction_normal [OF g2] direction_loop by simp
  show ?thesis
  proof (cases "1 \<le> m1")
    case False
    then have "w1 = (a0, card (a0 \<inter> ov), t0, 0)" using l1 by simp
    then show ?thesis using shoulderLoop_count [OF l2] by simp
  next
    case True
    then have "[1..m2] = [1..m1] @ [m1 + 1..m2]"
      using le by (intro upto_split2) simp_all
    then have "shoulderLoop st om arr ov n True dayOf i [m1 + 1..m2] w1 = Some w2"
      using l1 l2 by (simp add: shoulderLoop_append)
    then show ?thesis by (rule shoulderLoop_count)
  qed
qed

subsection \<open>The candidates and the result\<close>

lemma candidate_mono:
  assumes "candidate s origins ov obi ibi mo1 mi1 i = Some d1"
    and "candidate s origins ov obi ibi mo2 mi2 i = Some d2"
    and "mo1 \<le> mo2" "mi1 \<le> mi2"
  shows "availableOrigins d1 \<le> availableOrigins d2"
proof -
  from assms(1) obtain wo1 wi1 where
    o1: "direction (outboundStorage s) (originsMapOf origins) (airportsArray s) ov (length origins)
             obi (mo1 > 0) True (\<lambda>j. obi - j) i [1..mo1] = Some wo1"
    and i1: "direction (inboundStorage s) (originsMapOf origins) (airportsArray s) ov (length origins)
                 ibi True (mi1 > 0) (\<lambda>j. ibi + j) i [1..mi1] = Some wi1"
    and d1: "availableOrigins d1 = fst (snd wo1) + fst (snd wi1)"
    unfolding candidate_eq by (auto split: option.splits prod.splits)
  from assms(2) obtain wo2 wi2 where
    o2: "direction (outboundStorage s) (originsMapOf origins) (airportsArray s) ov (length origins)
             obi (mo2 > 0) True (\<lambda>j. obi - j) i [1..mo2] = Some wo2"
    and i2: "direction (inboundStorage s) (originsMapOf origins) (airportsArray s) ov (length origins)
                 ibi True (mi2 > 0) (\<lambda>j. ibi + j) i [1..mi2] = Some wi2"
    and d2: "availableOrigins d2 = fst (snd wo2) + fst (snd wi2)"
    unfolding candidate_eq by (auto split: option.splits prod.splits)
  have "fst (snd wo1) \<le> fst (snd wo2)"
    by (rule direction_mono [OF _ _ assms(3) o1 o2]) simp_all
  moreover have "fst (snd wi1) \<le> fst (snd wi2)"
    by (rule direction_mono [OF _ _ assms(4) i1 i2]) simp_all
  ultimately show ?thesis using d1 d2 by simp
qed

lemma candidate_code:
  "candidate s origins ov obi ibi mo mi i = Some d \<Longrightarrow> code d = airportsArray s ! i"
  unfolding candidate_eq by (auto split: option.splits prod.splits)

lemma candidates_list_all2:
  "candidates s origins ov obi ibi mo mi is = Some ds \<Longrightarrow>
   list_all2 (\<lambda>i d. candidate s origins ov obi ibi mo mi i = Some d) is ds"
  by (induction "is" arbitrary: ds) (auto split: bind_splits)

lemma candidates_member:
  assumes "candidates s origins ov obi ibi mo mi is = Some ds" "d \<in> set ds"
  shows "\<exists>i \<in> set is. candidate s origins ov obi ibi mo mi i = Some d"
proof -
  from assms(2) obtain k where k: "k < length ds" "ds ! k = d"
    by (auto simp: in_set_conv_nth)
  from candidates_list_all2 [OF assms(1)]
  have "length is = length ds" "candidate s origins ov obi ibi mo mi (is ! k) = Some (ds ! k)"
    using k(1) by (auto simp: list_all2_conv_all_nth)
  then show ?thesis using k by (metis nth_mem)
qed

lemma candidates_codes:
  assumes "candidates s origins ov obi ibi mo mi is = Some ds"
  shows "map code ds = map (\<lambda>i. airportsArray s ! i) is"
  using candidates_list_all2 [OF assms]
  by (induction rule: list_all2_induct) (simp_all add: candidate_code)

lemma getDestinationsForDatePair_InrD:
  assumes "getDestinationsForDatePair s origins ms me mo mi t = Inr r"
  obtains result where
    "0 \<le> dayIndex s ms" "dayIndex s ms \<le> 360" "0 \<le> dayIndex s me" "dayIndex s me \<le> 360"
    "candidates s origins (prepareOriginVector s (originsMapKeys origins))
       (dayIndex s ms) (dayIndex s me) mo mi [0..<length (airports s)] = Some result"
    "r = (if t > 0 then take (nat t) (sortResult result) else sortResult result)"
  using assms
  unfolding getDestinationsForDatePair_def Let_def convertDateToArrayIndex_eq
  by (auto split: if_splits option.splits)

lemma getDestinationsForDatePair_member:
  assumes "getDestinationsForDatePair s origins ms me mo mi t = Inr r" "d \<in> set r"
  shows "\<exists>i < length (airports s).
           candidate s origins (prepareOriginVector s (originsMapKeys origins))
             (dayIndex s ms) (dayIndex s me) mo mi i = Some d"
proof -
  from assms(1) obtain result where
    c: "candidates s origins (prepareOriginVector s (originsMapKeys origins))
       (dayIndex s ms) (dayIndex s me) mo mi [0..<length (airports s)] = Some result"
    and r: "r = (if t > 0 then take (nat t) (sortResult result) else sortResult result)"
    by (rule getDestinationsForDatePair_InrD)
  have "set r \<subseteq> set result"
    unfolding r sortResult_def using set_take_subset [of "nat t" "sort_key (\<lambda>d. - int (availableOrigins d)) result"]
    by auto
  with assms(2) have "d \<in> set result" by auto
  from candidates_member [OF c this] show ?thesis by auto
qed

text \<open>
  Claim C5 (monotone coverage).  On a store that satisfies the invariant, take two calls
  of \<^verbatim>\<open>getDestinationsForDatePair\<close> that return and differ only in the shoulder
  tolerances, neither tolerance of the second call being smaller.  Then a candidate has
  in the second result at least the \<^verbatim>\<open>availableOrigins\<close> that it has in the first.
\<close>

theorem availableOrigins_monotone:
  assumes "wf s"
    and "getDestinationsForDatePair s origins meetingStart meetingEnd mo1 mi1 t = Inr r1"
    and "getDestinationsForDatePair s origins meetingStart meetingEnd mo2 mi2 t = Inr r2"
    and "mo1 \<le> mo2" and "mi1 \<le> mi2"
    and "d1 \<in> set r1" and "d2 \<in> set r2" and "code d1 = code d2"
  shows "availableOrigins d1 \<le> availableOrigins d2"
proof -
  let ?ov = "prepareOriginVector s (originsMapKeys origins)"
  from getDestinationsForDatePair_member [OF assms(2,6)] obtain i1 where
    i1: "i1 < length (airports s)"
    "candidate s origins ?ov (dayIndex s meetingStart) (dayIndex s meetingEnd) mo1 mi1 i1 = Some d1"
    by auto
  from getDestinationsForDatePair_member [OF assms(3,7)] obtain i2 where
    i2: "i2 < length (airports s)"
    "candidate s origins ?ov (dayIndex s meetingStart) (dayIndex s meetingEnd) mo2 mi2 i2 = Some d2"
    by auto
  have "airportsArray s ! i1 = airportsArray s ! i2"
    using candidate_code [OF i1(2)] candidate_code [OF i2(2)] assms(8) by simp
  moreover have "distinct (airportsArray s)" "length (airports s) = length (airportsArray s)"
    using assms(1) by (simp_all add: wf_def)
  ultimately have "i1 = i2"
    using i1(1) i2(1) by (simp add: nth_eq_iff_index_eq)
  with i1(2) i2(2) show ?thesis
    using candidate_mono [OF _ _ assms(4,5)] by blast
qed

lemma sortResult_sorted:
  "sorted_wrt (\<lambda>a b. availableOrigins b \<le> availableOrigins a) (sortResult result)"
proof -
  have "sorted (map (\<lambda>d. - int (availableOrigins d)) (sortResult result))"
    unfolding sortResult_def by (rule sorted_sort_key)
  then show ?thesis by (simp add: sorted_map)
qed

lemma mset_sortResult: "mset (sortResult result) = mset result"
  by (simp add: sortResult_def)

text \<open>
  Claim C7.  When \<^verbatim>\<open>getDestinationsForDatePair\<close> returns on a store that satisfies the
  invariant, the result is sorted by descending \<^verbatim>\<open>availableOrigins\<close>.  With
  \<^verbatim>\<open>take\<close> not above 0 it holds one record for each registered airport (the codes of
  the records are the registered codes, each once; nothing excludes the origins) and its
  length is the size of the registry.  With \<^verbatim>\<open>take > 0\<close> it is the first \<^verbatim>\<open>take\<close>
  records of the result that the call returns with \<^verbatim>\<open>take = 0\<close>.
\<close>

theorem result_sorted_and_truncated:
  assumes "wf s"
    and "getDestinationsForDatePair s origins meetingStart meetingEnd mo mi t = Inr r"
  shows "sorted_wrt (\<lambda>a b. availableOrigins b \<le> availableOrigins a) r \<and>
         (t \<le> 0 \<longrightarrow> mset (map code r) = mset (airportsArray s) \<and> length r = length (airports s)) \<and>
         (0 < t \<longrightarrow>
            (\<exists>full. getDestinationsForDatePair s origins meetingStart meetingEnd mo mi 0 = Inr full \<and>
                    mset (map code full) = mset (airportsArray s) \<and>
                    r = take (nat t) full))"
proof -
  from assms(2) obtain result where
    d: "0 \<le> dayIndex s meetingStart" "dayIndex s meetingStart \<le> 360"
       "0 \<le> dayIndex s meetingEnd" "dayIndex s meetingEnd \<le> 360"
    and c: "candidates s origins (prepareOriginVector s (originsMapKeys origins))
       (dayIndex s meetingStart) (dayIndex s meetingEnd) mo mi [0..<length (airports s)] = Some result"
    and r: "r = (if t > 0 then take (nat t) (sortResult result) else sortResult result)"
    by (rule getDestinationsForDatePair_InrD)
  have len: "length (airports s) = length (airportsArray s)"
    using assms(1) by (simp add: wf_def)
  have codes: "map code result = airportsArray s"
    unfolding candidates_codes [OF c] len by (rule map_nth)
  have m: "mset (map code (sortResult result)) = mset (airportsArray s)"
    using codes mset_sortResult [of result] by (metis mset_map)
  have l: "length (sortResult result) = length (airports s)"
    using codes len by (metis length_map mset_sortResult size_mset)
  have full: "getDestinationsForDatePair s origins meetingStart meetingEnd mo mi 0
                = Inr (sortResult result)"
    unfolding getDestinationsForDatePair_def Let_def convertDateToArrayIndex_eq
    using d c by simp
  have s: "sorted_wrt (\<lambda>a b. availableOrigins b \<le> availableOrigins a) r"
    unfolding r using sortResult_sorted [of result] by (simp add: sorted_wrt_take)
  show ?thesis
    using s m l full r by auto
qed

section \<open>The fixture\<close>

lemma cell_wf_bitsOf:
  "wfStorage n st \<Longrightarrow>
   cell st d a k =
     (if 0 \<le> d \<and> d < 360 \<and> a < n \<and> 0 \<le> k \<and> k < 3 then Some (bitsOf st d a k) else None)"
  by (simp add: bitsOf_def orArg_def cell_wfStorage)

lemma airportsArray_addAirport:
  "wf s \<Longrightarrow> airportsArray (snd (addAirport c s))
     = (if c \<in> set (airportsArray s) then airportsArray s else airportsArray s @ [c])"
  by (simp add: addAirport_def wf_lookup_None)

lemma airportsArray_withAirports:
  assumes "wf s"
  shows "airportsArray (withAirports c s) =
     (let arr1 = (if originAirportCode c \<in> set (airportsArray s) then airportsArray s
                  else airportsArray s @ [originAirportCode c])
      in if destinationAirportCode c \<in> set arr1 then arr1 else arr1 @ [destinationAirportCode c])"
  unfolding withAirports_def Let_def
  by (simp only: airportsArray_addAirport [OF wf_addAirport [OF assms]] airportsArray_addAirport [OF assms])

lemma bitsOf_setBit:
  assumes "setBit st d a k x = Some st'"
  shows "bitsOf st' d' a' k' =
     (if d' = d \<and> a' = a \<and> k' = k then insert x (bitsOf st d a k) else bitsOf st d' a' k')"
proof -
  have "cell st d a k \<noteq> None" using assms setBit_Some_iff by blast
  then show ?thesis
    unfolding bitsOf_def cell_setBit [OF assms] by (auto simp: orArg_def)
qed

lemma setConnection_step:
  assumes wf: "wf s" and valid: "0 \<le> stops c" "stops c \<le> 2"
    "0 \<le> dayIndex s (date c)" "dayIndex s (date c) < 360"
    "0 \<le> dayIndex s (date c) + arriveNextDay c" "dayIndex s (date c) + arriveNextDay c < 360"
    and oi: "oi < length (airportsArray (withAirports c s))"
      "airportsArray (withAirports c s) ! oi = originAirportCode c"
    and di: "di < length (airportsArray (withAirports c s))"
      "airportsArray (withAirports c s) ! di = destinationAirportCode c"
  shows "startDate (snd (setConnection c s)) = startDate s"
    and "airportsArray (snd (setConnection c s)) = airportsArray (withAirports c s)"
    and "bitsOf (outboundStorage (snd (setConnection c s))) d a k =
          (if d = dayIndex s (date c) + arriveNextDay c \<and> a = di \<and> k = stops c
           then insert oi (bitsOf (outboundStorage s) d a k) else bitsOf (outboundStorage s) d a k)"
    and "bitsOf (inboundStorage (snd (setConnection c s))) d a k =
          (if d = dayIndex s (date c) \<and> a = oi \<and> k = stops c
           then insert di (bitsOf (inboundStorage s) d a k) else bitsOf (inboundStorage s) d a k)"
proof -
  have ok: "fst (setConnection c s) = Inr ()"
    using wf valid by (rule setConnection_ok)
  then obtain oi' di' ob ib where h:
    "map_of (airports (withAirports c s)) (originAirportCode c) = Some oi'"
    "map_of (airports (withAirports c s)) (destinationAirportCode c) = Some di'"
    "setBit (outboundStorage (withAirports c s)) (dayIndex s (date c) + arriveNextDay c) di' (stops c) oi'
       = Some ob"
    "setBit (inboundStorage (withAirports c s)) (dayIndex s (date c)) oi' (stops c) di' = Some ib"
    "snd (setConnection c s) = (withAirports c s)\<lparr>outboundStorage := ob, inboundStorage := ib\<rparr>"
    by (rule setConnection_InrD)
  have w: "wf (withAirports c s)" using wf by (rule wf_withAirports)
  have "map_of (airports (withAirports c s)) (originAirportCode c) = Some oi"
    "map_of (airports (withAirports c s)) (destinationAirportCode c) = Some di"
    using oi di by (simp_all add: wf_lookup [OF w])
  then have e: "oi' = oi" "di' = di" using h(1,2) by simp_all
  show "startDate (snd (setConnection c s)) = startDate s"
    and "airportsArray (snd (setConnection c s)) = airportsArray (withAirports c s)"
    by (simp_all add: h(5))
  show "bitsOf (outboundStorage (snd (setConnection c s))) d a k =
          (if d = dayIndex s (date c) + arriveNextDay c \<and> a = di \<and> k = stops c
           then insert oi (bitsOf (outboundStorage s) d a k) else bitsOf (outboundStorage s) d a k)"
    using bitsOf_setBit [OF h(3), of d a k] by (simp add: h(5) e bitsOf_withAirports)
  show "bitsOf (inboundStorage (snd (setConnection c s))) d a k =
          (if d = dayIndex s (date c) \<and> a = oi \<and> k = stops c
           then insert di (bitsOf (inboundStorage s) d a k) else bitsOf (inboundStorage s) d a k)"
    using bitsOf_setBit [OF h(4), of d a k] by (simp add: h(5) e bitsOf_withAirports)
qed

lemma dayIndex_january:
  "startDate s = january2025 1 \<Longrightarrow> dayIndex s (january2025 n) = n - 1"
  by (simp add: dayIndex_def january2025_def)

lemma bitsOf_init:
  "bitsOf (outboundStorage (init d0)) d a k = {}" "bitsOf (inboundStorage (init d0)) d a k = {}"
  by (simp_all add: init_def bitsOf_def orArg_def cell_wfStorage [OF wfStorage_replicate])

lemma fixture_state:
  "startDate fixture = january2025 1"
  "airportsArray fixture = [''AAA'', ''CCC'', ''DDD'', ''BBB'']"
  "bitsOf (outboundStorage fixture) d a k =
     (if d = 8 \<and> a = 1 \<and> k = 2 then {0}
      else if d = 9 \<and> a = 2 \<and> k = 0 then {0}
      else if d = 9 \<and> a = 1 \<and> k = 1 then {3}
      else if d = 14 \<and> a = 0 \<and> k = 1 then {1}
      else if d = 14 \<and> a = 0 \<and> k = 0 then {2}
      else if d = 15 \<and> a = 3 \<and> k = 0 then {1}
      else {})"
  "bitsOf (inboundStorage fixture) d a k =
     (if d = 8 \<and> a = 0 \<and> k = 2 then {1}
      else if d = 9 \<and> a = 0 \<and> k = 0 then {2}
      else if d = 9 \<and> a = 3 \<and> k = 1 then {1}
      else if d = 14 \<and> a = 1 \<and> k = 1 then {0}
      else if d = 14 \<and> a = 2 \<and> k = 0 then {0}
      else if d = 15 \<and> a = 1 \<and> k = 0 then {3}
      else {})"
proof -
  define s0 where "s0 = init (january2025 1)"
  define s1 where "s1 = snd (setConnection (connection ''AAA'' ''CCC'' (january2025 9) 2 0) s0)"
  define s2 where "s2 = snd (setConnection (connection ''AAA'' ''DDD'' (january2025 10) 0 0) s1)"
  define s3 where "s3 = snd (setConnection (connection ''BBB'' ''CCC'' (january2025 10) 1 0) s2)"
  define s4 where "s4 = snd (setConnection (connection ''CCC'' ''AAA'' (january2025 15) 1 0) s3)"
  define s5 where "s5 = snd (setConnection (connection ''DDD'' ''AAA'' (january2025 15) 0 0) s4)"
  define s6 where "s6 = snd (setConnection (connection ''CCC'' ''BBB'' (january2025 16) 0 0) s5)"
  have f: "fixture = s6"
    by (simp add: fixture_def setConnections_def s0_def s1_def s2_def s3_def s4_def s5_def s6_def)
  have w0: "wf s0" by (simp add: s0_def wf_init)
  have w1: "wf s1" unfolding s1_def using w0 by (rule wf_setConnection)
  have w2: "wf s2" unfolding s2_def using w1 by (rule wf_setConnection)
  have w3: "wf s3" unfolding s3_def using w2 by (rule wf_setConnection)
  have w4: "wf s4" unfolding s4_def using w3 by (rule wf_setConnection)
  have w5: "wf s5" unfolding s5_def using w4 by (rule wf_setConnection)
  have d0: "startDate s0 = january2025 1" and a0: "airportsArray s0 = []"
    by (simp_all add: s0_def init_def)
  have b0: "bitsOf (outboundStorage s0) d a k = {}" "bitsOf (inboundStorage s0) d a k = {}" for d a k
    by (simp_all add: s0_def bitsOf_init)
  note step = setConnection_step
  have x1: "airportsArray (withAirports (connection ''AAA'' ''CCC'' (january2025 9) 2 0) s0)
              = [''AAA'', ''CCC'']"
    by (simp add: airportsArray_withAirports [OF w0] a0)
  have r1: "startDate s1 = january2025 1" "airportsArray s1 = [''AAA'', ''CCC'']"
    "bitsOf (outboundStorage s1) d a k = (if d = 8 \<and> a = 1 \<and> k = 2 then {0} else {})"
    "bitsOf (inboundStorage s1) d a k = (if d = 8 \<and> a = 0 \<and> k = 2 then {1} else {})" for d a k
    unfolding s1_def
    by (subst step [OF w0, where oi = 0 and di = 1];
        simp add: dayIndex_january [OF d0] x1 d0 b0)+
  have x2: "airportsArray (withAirports (connection ''AAA'' ''DDD'' (january2025 10) 0 0) s1)
              = [''AAA'', ''CCC'', ''DDD'']"
    by (simp add: airportsArray_withAirports [OF w1] r1)
  have r2: "startDate s2 = january2025 1" "airportsArray s2 = [''AAA'', ''CCC'', ''DDD'']"
    "bitsOf (outboundStorage s2) d a k =
       (if d = 8 \<and> a = 1 \<and> k = 2 then {0}
        else if d = 9 \<and> a = 2 \<and> k = 0 then {0} else {})"
    "bitsOf (inboundStorage s2) d a k =
       (if d = 8 \<and> a = 0 \<and> k = 2 then {1}
        else if d = 9 \<and> a = 0 \<and> k = 0 then {2} else {})" for d a k
    unfolding s2_def
    by (subst step [OF w1, where oi = 0 and di = 2];
        simp add: dayIndex_january [OF r1(1)] x2 r1)+
  have x3: "airportsArray (withAirports (connection ''BBB'' ''CCC'' (january2025 10) 1 0) s2)
              = [''AAA'', ''CCC'', ''DDD'', ''BBB'']"
    by (simp add: airportsArray_withAirports [OF w2] r2)
  have r3: "startDate s3 = january2025 1" "airportsArray s3 = [''AAA'', ''CCC'', ''DDD'', ''BBB'']"
    "bitsOf (outboundStorage s3) d a k =
       (if d = 8 \<and> a = 1 \<and> k = 2 then {0}
        else if d = 9 \<and> a = 2 \<and> k = 0 then {0}
        else if d = 9 \<and> a = 1 \<and> k = 1 then {3} else {})"
    "bitsOf (inboundStorage s3) d a k =
       (if d = 8 \<and> a = 0 \<and> k = 2 then {1}
        else if d = 9 \<and> a = 0 \<and> k = 0 then {2}
        else if d = 9 \<and> a = 3 \<and> k = 1 then {1} else {})" for d a k
    unfolding s3_def
    by (subst step [OF w2, where oi = 3 and di = 1];
        simp add: dayIndex_january [OF r2(1)] x3 r2)+
  have x4: "airportsArray (withAirports (connection ''CCC'' ''AAA'' (january2025 15) 1 0) s3)
              = [''AAA'', ''CCC'', ''DDD'', ''BBB'']"
    by (simp add: airportsArray_withAirports [OF w3] r3)
  have r4: "startDate s4 = january2025 1" "airportsArray s4 = [''AAA'', ''CCC'', ''DDD'', ''BBB'']"
    "bitsOf (outboundStorage s4) d a k =
       (if d = 8 \<and> a = 1 \<and> k = 2 then {0}
        else if d = 9 \<and> a = 2 \<and> k = 0 then {0}
        else if d = 9 \<and> a = 1 \<and> k = 1 then {3}
        else if d = 14 \<and> a = 0 \<and> k = 1 then {1} else {})"
    "bitsOf (inboundStorage s4) d a k =
       (if d = 8 \<and> a = 0 \<and> k = 2 then {1}
        else if d = 9 \<and> a = 0 \<and> k = 0 then {2}
        else if d = 9 \<and> a = 3 \<and> k = 1 then {1}
        else if d = 14 \<and> a = 1 \<and> k = 1 then {0} else {})" for d a k
    unfolding s4_def
    by (subst step [OF w3, where oi = 1 and di = 0];
        simp add: dayIndex_january [OF r3(1)] x4 r3)+
  have x5: "airportsArray (withAirports (connection ''DDD'' ''AAA'' (january2025 15) 0 0) s4)
              = [''AAA'', ''CCC'', ''DDD'', ''BBB'']"
    by (simp add: airportsArray_withAirports [OF w4] r4)
  have r5: "startDate s5 = january2025 1" "airportsArray s5 = [''AAA'', ''CCC'', ''DDD'', ''BBB'']"
    "bitsOf (outboundStorage s5) d a k =
       (if d = 8 \<and> a = 1 \<and> k = 2 then {0}
        else if d = 9 \<and> a = 2 \<and> k = 0 then {0}
        else if d = 9 \<and> a = 1 \<and> k = 1 then {3}
        else if d = 14 \<and> a = 0 \<and> k = 1 then {1}
        else if d = 14 \<and> a = 0 \<and> k = 0 then {2} else {})"
    "bitsOf (inboundStorage s5) d a k =
       (if d = 8 \<and> a = 0 \<and> k = 2 then {1}
        else if d = 9 \<and> a = 0 \<and> k = 0 then {2}
        else if d = 9 \<and> a = 3 \<and> k = 1 then {1}
        else if d = 14 \<and> a = 1 \<and> k = 1 then {0}
        else if d = 14 \<and> a = 2 \<and> k = 0 then {0} else {})" for d a k
    unfolding s5_def
    by (subst step [OF w4, where oi = 2 and di = 0];
        simp add: dayIndex_january [OF r4(1)] x5 r4)+
  have x6: "airportsArray (withAirports (connection ''CCC'' ''BBB'' (january2025 16) 0 0) s5)
              = [''AAA'', ''CCC'', ''DDD'', ''BBB'']"
    by (simp add: airportsArray_withAirports [OF w5] r5)
  have r6: "startDate s6 = january2025 1" "airportsArray s6 = [''AAA'', ''CCC'', ''DDD'', ''BBB'']"
    "bitsOf (outboundStorage s6) d a k =
       (if d = 8 \<and> a = 1 \<and> k = 2 then {0}
        else if d = 9 \<and> a = 2 \<and> k = 0 then {0}
        else if d = 9 \<and> a = 1 \<and> k = 1 then {3}
        else if d = 14 \<and> a = 0 \<and> k = 1 then {1}
        else if d = 14 \<and> a = 0 \<and> k = 0 then {2}
        else if d = 15 \<and> a = 3 \<and> k = 0 then {1} else {})"
    "bitsOf (inboundStorage s6) d a k =
       (if d = 8 \<and> a = 0 \<and> k = 2 then {1}
        else if d = 9 \<and> a = 0 \<and> k = 0 then {2}
        else if d = 9 \<and> a = 3 \<and> k = 1 then {1}
        else if d = 14 \<and> a = 1 \<and> k = 1 then {0}
        else if d = 14 \<and> a = 2 \<and> k = 0 then {0}
        else if d = 15 \<and> a = 1 \<and> k = 0 then {3} else {})" for d a k
    unfolding s6_def
    by (subst step [OF w5, where oi = 1 and di = 3];
        simp add: dayIndex_january [OF r5(1)] x6 r5)+
  show "startDate fixture = january2025 1"
    and "airportsArray fixture = [''AAA'', ''CCC'', ''DDD'', ''BBB'']"
    unfolding f by (fact r6)+
  show "bitsOf (outboundStorage fixture) d a k =
     (if d = 8 \<and> a = 1 \<and> k = 2 then {0}
      else if d = 9 \<and> a = 2 \<and> k = 0 then {0}
      else if d = 9 \<and> a = 1 \<and> k = 1 then {3}
      else if d = 14 \<and> a = 0 \<and> k = 1 then {1}
      else if d = 14 \<and> a = 0 \<and> k = 0 then {2}
      else if d = 15 \<and> a = 3 \<and> k = 0 then {1}
      else {})"
    unfolding f by (fact r6)
  show "bitsOf (inboundStorage fixture) d a k =
     (if d = 8 \<and> a = 0 \<and> k = 2 then {1}
      else if d = 9 \<and> a = 0 \<and> k = 0 then {2}
      else if d = 9 \<and> a = 3 \<and> k = 1 then {1}
      else if d = 14 \<and> a = 1 \<and> k = 1 then {0}
      else if d = 14 \<and> a = 2 \<and> k = 0 then {0}
      else if d = 15 \<and> a = 1 \<and> k = 0 then {3}
      else {})"
    unfolding f by (fact r6)
qed

section \<open>Coherence of the two stores\<close>










section \<open>Shoulder nights\<close>

lemma sumArray_sum_list: "sumArray xs = sum_list xs"
proof -
  have "foldl (\<lambda>accumulator currentValue. accumulator + currentValue) a xs = a + sum_list xs"
    for a :: int
    by (induction xs arbitrary: a) simp_all
  then show ?thesis by (simp add: sumArray_def)
qed

lemma sumArray_sorted_list_of_set:
  "finite A \<Longrightarrow> sumArray (map f (sorted_list_of_set A)) = (\<Sum>x\<in>A. f x)"
  by (simp add: sumArray_sum_list sum_list_distinct_conv_sum_set)

lemma finite_prepareOriginVector: "finite (prepareOriginVector s keys)"
  by (simp add: prepareOriginVector_def)

lemma card_prepareOriginVector:
  "card (prepareOriginVector s (originsMapKeys origins)) \<le> length origins"
proof -
  have "card (prepareOriginVector s (originsMapKeys origins))
          \<le> length (List.map_filter (map_of (airports s)) (originsMapKeys origins))"
    unfolding prepareOriginVector_def by (rule card_length)
  also have "\<dots> \<le> length (originsMapKeys origins)"
    by (simp add: List.map_filter_def)
  also have "\<dots> \<le> length origins"
    unfolding originsMapKeys_def using length_remdups_leq [of "rev (map fst origins)"] by simp
  finally show ?thesis .
qed

text \<open>
  On a well-formed store every index of the origins vector is within the airports array
  and its code has a count, so the reads \<^verbatim>\<open>airportsArray[ind]\<close> and
  \<^verbatim>\<open>originsMap.get(...)!\<close> of the ranking are defined.
\<close>

lemma originsMapKeys_set: "set (originsMapKeys origins) = fst ` set origins"
  by (simp add: originsMapKeys_def)

lemma origin_count_defined:
  assumes "wf s" "ind \<in> prepareOriginVector s (originsMapKeys origins)"
  shows "ind < length (airportsArray s)"
    and "originsMapOf origins (airportsArray s ! ind) \<noteq> None"
proof -
  from assms(2) obtain c where c: "c \<in> set (originsMapKeys origins)"
    "map_of (airports s) c = Some ind"
    by (auto simp: prepareOriginVector_def List.map_filter_def)
  from c(2) have i: "ind < length (airportsArray s)" "airportsArray s ! ind = c"
    using wf_lookup [OF assms(1)] by auto
  show "ind < length (airportsArray s)" by (rule i)
  have "c \<in> fst ` set (rev origins)" using c(1) by (simp add: originsMapKeys_set)
  then show "originsMapOf origins (airportsArray s ! ind) \<noteq> None"
    unfolding i originsMapOf_def by (simp add: map_of_eq_None_iff)
qed

lemma servedBefore_Suc:
  "1 \<le> j \<Longrightarrow> servedBefore st anchor dayOf i (j + 1)
     = servedBefore st anchor dayOf i j \<union> layerBits st (dayOf j) i"
proof -
  assume "1 \<le> j"
  then have "{1..<j + 1} = insert j {1..<j}" by auto
  then show ?thesis by (auto simp: servedBefore_def)
qed

lemma servedBefore_1: "servedBefore st anchor dayOf i 1 = layerBits st anchor i"
  by (simp add: servedBefore_def)

text \<open>What one round of a shoulder loop does to the variables.\<close>

lemma shoulderNight_SomeD:
  assumes "shoulderNight st om arr ov i day j (a, c, t, n) = Some (a', c', t', n')"
  shows "a' = a \<union> layerBits st day i"
    and "c' = c + card ((layerBits st day i \<inter> ov) - a)"
    and "n' = n + sumArray (map (\<lambda>ind. the (om (arr ! ind)))
                   (sorted_list_of_set ((layerBits st day i \<inter> ov) - a))) * j"
proof -
  from assms obtain l where l: "availableConnections st day i = Some l"
    by (auto simp: shoulderNight_def split: bind_splits)
  then have lb: "layerBits st day i = l" by (simp add: layerBits_def orArg_def)
  have e: "l \<inter> (- a \<inter> ov) = (l \<inter> ov) - a" by auto
  from assms show "a' = a \<union> layerBits st day i"
    and "c' = c + card ((layerBits st day i \<inter> ov) - a)"
    and "n' = n + sumArray (map (\<lambda>ind. the (om (arr ! ind)))
                   (sorted_list_of_set ((layerBits st day i \<inter> ov) - a))) * j"
    by (auto simp: shoulderNight_def l lb e Let_def split: bind_splits)
qed

lemma shoulderLoop_nights:
  assumes fin: "finite ov" and card: "card ov \<le> n"
  shows "shoulderLoop st om arr ov n True dayOf i [1..int k]
            (layerBits st anchor i, card (layerBits st anchor i \<inter> ov), t0, 0) = Some (a, c, t, nights)
         \<Longrightarrow> c = card (a \<inter> ov)
             \<and> a \<inter> ov = servedBefore st anchor dayOf i (int k + 1) \<inter> ov
             \<and> nights = (\<Sum>j = 1..int k.
                   (\<Sum>x \<in> firstServed st ov anchor dayOf i j. the (om (arr ! x))) * j)"
proof (induction k arbitrary: a c t nights)
  case 0
  then show ?case by (auto simp: servedBefore_1)
next
  case (Suc k)
  define j where "j = int k + 1"
  have sk: "int (Suc k) = j" by (simp add: j_def)
  have j1: "1 \<le> j" by (simp add: j_def)
  have split: "[1..j] = [1..int k] @ [j]"
    using upto_rec2 [of 1 j] j1 by (simp add: j_def)
  from Suc.prems obtain a1 c1 t1 n1 where
    l1: "shoulderLoop st om arr ov n True dayOf i [1..int k]
            (layerBits st anchor i, card (layerBits st anchor i \<inter> ov), t0, 0) = Some (a1, c1, t1, n1)"
    and l2: "shoulderLoop st om arr ov n True dayOf i [j] (a1, c1, t1, n1) = Some (a, c, t, nights)"
    unfolding sk split shoulderLoop_append by (auto split: option.splits)
  from Suc.IH [OF l1] have ih:
    "c1 = card (a1 \<inter> ov)" "a1 \<inter> ov = servedBefore st anchor dayOf i j \<inter> ov"
    "n1 = (\<Sum>j = 1..int k. (\<Sum>x \<in> firstServed st ov anchor dayOf i j. the (om (arr ! x))) * j)"
    by (simp_all add: j_def)
  let ?L = "layerBits st (dayOf j) i"
  have sb: "servedBefore st anchor dayOf i (j + 1) = servedBefore st anchor dayOf i j \<union> ?L"
    using j1 by (rule servedBefore_Suc)
  have fs: "firstServed st ov anchor dayOf i j = (?L \<inter> ov) - a1"
    unfolding firstServed_def using ih(2) by auto
  have sum: "(\<Sum>j = 1..j. (\<Sum>x \<in> firstServed st ov anchor dayOf i j. the (om (arr ! x))) * j)
      = n1 + (\<Sum>x \<in> (?L \<inter> ov) - a1. the (om (arr ! x))) * j"
  proof -
    have "{1..j} = insert j {1..int k}" "j \<notin> {1..int k}" by (auto simp: j_def)
    then show ?thesis by (simp add: ih(3) fs)
  qed
  show ?case
    unfolding sk
  proof (cases "c1 < n")
    case True
    with l2 have "shoulderNight st om arr ov i (dayOf j) j (a1, c1, t1, n1) = Some (a, c, t, nights)"
      by (auto split: bind_splits)
    from shoulderNight_SomeD [OF this]
    have r: "a = a1 \<union> ?L" "c = c1 + card ((?L \<inter> ov) - a1)"
      "nights = n1 + sumArray (map (\<lambda>ind. the (om (arr ! ind)))
                   (sorted_list_of_set ((?L \<inter> ov) - a1))) * j"
      by simp_all
    have f: "finite ((?L \<inter> ov) - a1)" "finite (a1 \<inter> ov)" using fin by auto
    have "(a1 \<union> ?L) \<inter> ov = (a1 \<inter> ov) \<union> ((?L \<inter> ov) - a1)" by auto
    moreover have "(a1 \<inter> ov) \<inter> ((?L \<inter> ov) - a1) = {}" by auto
    ultimately have c: "card ((a1 \<union> ?L) \<inter> ov) = card (a1 \<inter> ov) + card ((?L \<inter> ov) - a1)"
      using f by (simp add: card_Un_disjoint)
    have "a \<inter> ov = servedBefore st anchor dayOf i (j + 1) \<inter> ov"
      unfolding sb r(1) using ih(2) by auto
    then show "c = card (a \<inter> ov)
         \<and> a \<inter> ov = servedBefore st anchor dayOf i (j + 1) \<inter> ov
         \<and> nights = (\<Sum>j = 1..j. (\<Sum>x \<in> firstServed st ov anchor dayOf i j. the (om (arr ! x))) * j)"
      using c r ih(1) sum by (simp add: sumArray_sorted_list_of_set [OF f(1)])
  next
    case False
    with l2 have same: "a = a1" "c = c1" "nights = n1" by simp_all
    have "card ov \<le> card (a1 \<inter> ov)" using False card ih(1) by simp
    then have "a1 \<inter> ov = ov"
      using fin by (intro card_seteq) auto
    then have all: "ov \<subseteq> a1" by auto
    then have "a \<inter> ov = servedBefore st anchor dayOf i (j + 1) \<inter> ov"
      unfolding sb same using ih(2) by auto
    moreover have "(?L \<inter> ov) - a1 = {}" using all by auto
    then have "(\<Sum>x \<in> (?L \<inter> ov) - a1. the (om (arr ! x))) = 0"
      by (simp only: sum.empty)
    ultimately show "c = card (a \<inter> ov)
         \<and> a \<inter> ov = servedBefore st anchor dayOf i (j + 1) \<inter> ov
         \<and> nights = (\<Sum>j = 1..j. (\<Sum>x \<in> firstServed st ov anchor dayOf i j. the (om (arr ! x))) * j)"
      using same ih(1) sum by simp
  qed
qed

lemma direction_nights:
  assumes fin: "finite ov" and card: "card ov \<le> n" and g: "outer \<and> g \<longleftrightarrow> 0 < m"
    and r: "direction st om arr ov n anchor outer g dayOf i [1..m] = Some (a, c, t, nights)"
  shows "nights = (\<Sum>j = 1..m. (\<Sum>x \<in> firstServed st ov anchor dayOf i j. the (om (arr ! x))) * j)"
proof -
  from r obtain a0 t0 where a0: "availableConnections st anchor i = Some a0"
    and l: "shoulderLoop st om arr ov n True dayOf i [1..m] (a0, card (a0 \<inter> ov), t0, 0)
              = Some (a, c, t, nights)"
    unfolding direction_normal [OF g] direction_loop by (auto split: option.splits)
  have lb: "layerBits st anchor i = a0" using a0 by (simp add: layerBits_def orArg_def)
  show ?thesis
  proof (cases "0 \<le> m")
    case True
    then have m: "m = int (nat m)" by simp
    from l have "shoulderLoop st om arr ov n True dayOf i [1..int (nat m)]
            (layerBits st anchor i, card (layerBits st anchor i \<inter> ov), t0, 0) = Some (a, c, t, nights)"
      using m lb by simp
    from shoulderLoop_nights [OF fin card this] show ?thesis using m by simp
  next
    case False
    then show ?thesis using l by simp
  qed
qed

section \<open>The ranking of the fixture\<close>

lemma airports_fixture:
  "airports fixture = [(''AAA'', 0), (''CCC'', 1), (''DDD'', 2), (''BBB'', 3)]"
proof -
  have "airports fixture = zip (airportsArray fixture) [0..<length (airportsArray fixture)]"
    using wf_fixture by (simp add: wf_def)
  then show ?thesis by (simp add: fixture_state upt_rec)
qed

lemma originsVector_fixture:
  "prepareOriginVector fixture (originsMapKeys [(''AAA'', 2), (''BBB'', 1), (''CCC'', 1)]) = {0, 1, 3}"
  by (auto simp: prepareOriginVector_def originsMapKeys_def airports_fixture List.map_filter_def)

lemma cell_fixture:
  "cell (outboundStorage fixture) d a k =
     (if 0 \<le> d \<and> d < 360 \<and> a < 4 \<and> 0 \<le> k \<and> k < 3
      then Some (bitsOf (outboundStorage fixture) d a k) else None)"
  "cell (inboundStorage fixture) d a k =
     (if 0 \<le> d \<and> d < 360 \<and> a < 4 \<and> 0 \<le> k \<and> k < 3
      then Some (bitsOf (inboundStorage fixture) d a k) else None)"
proof -
  have "length (airportsArray fixture) = 4" by (simp add: fixture_state)
  from wf_fixture [unfolded wf_def this]
  have "wfStorage 4 (outboundStorage fixture)" "wfStorage 4 (inboundStorage fixture)"
    by blast+
  then show "cell (outboundStorage fixture) d a k =
     (if 0 \<le> d \<and> d < 360 \<and> a < 4 \<and> 0 \<le> k \<and> k < 3
      then Some (bitsOf (outboundStorage fixture) d a k) else None)"
  "cell (inboundStorage fixture) d a k =
     (if 0 \<le> d \<and> d < 360 \<and> a < 4 \<and> 0 \<le> k \<and> k < 3
      then Some (bitsOf (inboundStorage fixture) d a k) else None)"
    by (simp_all add: cell_wf_bitsOf)
qed

lemmas candidate_eval =
  candidate_def availableConnections_def getOutboundStopsCount_def
  getInboundStopsCount_def getStopsCount_def cell_fixture fixture_state orArg_def
  shoulderNight_def getUnavailableOrigins_def sumArray_def originsMapOf_def Let_def

lemma fixture_candidates_11:
  "candidates fixture [(''AAA'', 2), (''BBB'', 1), (''CCC'', 1)] {0, 1, 3} 9 14 1 1 [0, 1, 2, 3] =
     Some [\<lparr> code = ''AAA'', availableOrigins = 0, totalStops = 0,
              unavailableOutboundOrigins = [''CCC'', ''BBB''], outboundShoulderNights = 0,
              unavailableInboundOrigins = [''CCC'', ''BBB''], inboundShoulderNights = 0 \<rparr>,
           \<lparr> code = ''CCC'', availableOrigins = 4, totalStops = 4,
              unavailableOutboundOrigins = [], outboundShoulderNights = 2,
              unavailableInboundOrigins = [], inboundShoulderNights = 1 \<rparr>,
           \<lparr> code = ''DDD'', availableOrigins = 2, totalStops = 0,
              unavailableOutboundOrigins = [''CCC'', ''BBB''], outboundShoulderNights = 0,
              unavailableInboundOrigins = [''CCC'', ''BBB''], inboundShoulderNights = 0 \<rparr>,
           \<lparr> code = ''BBB'', availableOrigins = 0, totalStops = 0,
              unavailableOutboundOrigins = [''AAA'', ''CCC''], outboundShoulderNights = 0,
              unavailableInboundOrigins = [''AAA'', ''CCC''], inboundShoulderNights = 0 \<rparr>]"
proof -
  have 0: "candidate fixture [(''AAA'', 2), (''BBB'', 1), (''CCC'', 1)] {0, 1, 3} 9 14 1 1 0 =
     Some \<lparr> code = ''AAA'', availableOrigins = 0, totalStops = 0,
              unavailableOutboundOrigins = [''CCC'', ''BBB''], outboundShoulderNights = 0,
              unavailableInboundOrigins = [''CCC'', ''BBB''], inboundShoulderNights = 0 \<rparr>"
    by (simp add: candidate_eval)
  have 1: "candidate fixture [(''AAA'', 2), (''BBB'', 1), (''CCC'', 1)] {0, 1, 3} 9 14 1 1 1 =
     Some \<lparr> code = ''CCC'', availableOrigins = 4, totalStops = 4,
            unavailableOutboundOrigins = [], outboundShoulderNights = 2,
            unavailableInboundOrigins = [], inboundShoulderNights = 1 \<rparr>"
    by (simp add: candidate_eval)
  have 2: "candidate fixture [(''AAA'', 2), (''BBB'', 1), (''CCC'', 1)] {0, 1, 3} 9 14 1 1 2 =
     Some \<lparr> code = ''DDD'', availableOrigins = 2, totalStops = 0,
              unavailableOutboundOrigins = [''CCC'', ''BBB''], outboundShoulderNights = 0,
              unavailableInboundOrigins = [''CCC'', ''BBB''], inboundShoulderNights = 0 \<rparr>"
    by (simp add: candidate_eval)
  have 3: "candidate fixture [(''AAA'', 2), (''BBB'', 1), (''CCC'', 1)] {0, 1, 3} 9 14 1 1 3 =
     Some \<lparr> code = ''BBB'', availableOrigins = 0, totalStops = 0,
              unavailableOutboundOrigins = [''AAA'', ''CCC''], outboundShoulderNights = 0,
              unavailableInboundOrigins = [''AAA'', ''CCC''], inboundShoulderNights = 0 \<rparr>"
    by (simp add: candidate_eval)
  show ?thesis
    unfolding candidates.simps 0 1 2 3 by simp
qed

lemma fixture_indices: "[0..<length (airports fixture)] = [0, 1, 2, 3]"
  by (simp add: airports_fixture upt_rec)

lemma fixture_ranking_11:
  "getDestinationsForDatePair fixture [(''AAA'', 2), (''BBB'', 1), (''CCC'', 1)]
     (january2025 10) (january2025 15) 1 1 t =
   (let sorted' =
      [\<lparr> code = ''CCC'', availableOrigins = 4, totalStops = 4,
              unavailableOutboundOrigins = [], outboundShoulderNights = 2,
              unavailableInboundOrigins = [], inboundShoulderNights = 1 \<rparr>,
       \<lparr> code = ''DDD'', availableOrigins = 2, totalStops = 0,
              unavailableOutboundOrigins = [''CCC'', ''BBB''], outboundShoulderNights = 0,
              unavailableInboundOrigins = [''CCC'', ''BBB''], inboundShoulderNights = 0 \<rparr>,
       \<lparr> code = ''AAA'', availableOrigins = 0, totalStops = 0,
              unavailableOutboundOrigins = [''CCC'', ''BBB''], outboundShoulderNights = 0,
              unavailableInboundOrigins = [''CCC'', ''BBB''], inboundShoulderNights = 0 \<rparr>,
       \<lparr> code = ''BBB'', availableOrigins = 0, totalStops = 0,
              unavailableOutboundOrigins = [''AAA'', ''CCC''], outboundShoulderNights = 0,
              unavailableInboundOrigins = [''AAA'', ''CCC''], inboundShoulderNights = 0 \<rparr>]
    in if t > 0 then Inr (take (nat t) sorted') else Inr sorted')"
proof -
  have c: "convertDateToArrayIndex fixture (january2025 10) = Inr 9"
    "convertDateToArrayIndex fixture (january2025 15) = Inr 14"
    by (simp_all add: convertDateToArrayIndex_eq dayIndex_january [OF fixture_state(1)])
  show ?thesis
    unfolding getDestinationsForDatePair_def originsVector_fixture Let_def c sum.case
      fixture_indices fixture_candidates_11 option.case
    by (simp add: sortResult_def)
qed

lemma fixture_candidates_00:
  "candidates fixture [(''AAA'', 2), (''BBB'', 1), (''CCC'', 1)] {0, 1, 3} 9 14 0 0 [0, 1, 2, 3] =
     Some [\<lparr> code = ''AAA'', availableOrigins = 0, totalStops = 0,
              unavailableOutboundOrigins = [''CCC'', ''BBB''], outboundShoulderNights = 0,
              unavailableInboundOrigins = [''CCC'', ''BBB''], inboundShoulderNights = 0 \<rparr>,
           \<lparr> code = ''CCC'', availableOrigins = 2, totalStops = 2,
              unavailableOutboundOrigins = [''AAA''], outboundShoulderNights = 0,
              unavailableInboundOrigins = [''BBB''], inboundShoulderNights = 0 \<rparr>,
           \<lparr> code = ''DDD'', availableOrigins = 2, totalStops = 0,
              unavailableOutboundOrigins = [''CCC'', ''BBB''], outboundShoulderNights = 0,
              unavailableInboundOrigins = [''CCC'', ''BBB''], inboundShoulderNights = 0 \<rparr>,
           \<lparr> code = ''BBB'', availableOrigins = 0, totalStops = 0,
              unavailableOutboundOrigins = [''AAA'', ''CCC''], outboundShoulderNights = 0,
              unavailableInboundOrigins = [''AAA'', ''CCC''], inboundShoulderNights = 0 \<rparr>]"
proof -
  have 0: "candidate fixture [(''AAA'', 2), (''BBB'', 1), (''CCC'', 1)] {0, 1, 3} 9 14 0 0 0 =
     Some \<lparr> code = ''AAA'', availableOrigins = 0, totalStops = 0,
              unavailableOutboundOrigins = [''CCC'', ''BBB''], outboundShoulderNights = 0,
              unavailableInboundOrigins = [''CCC'', ''BBB''], inboundShoulderNights = 0 \<rparr>"
    by (simp add: candidate_eval)
  have 1: "candidate fixture [(''AAA'', 2), (''BBB'', 1), (''CCC'', 1)] {0, 1, 3} 9 14 0 0 1 =
     Some \<lparr> code = ''CCC'', availableOrigins = 2, totalStops = 2,
              unavailableOutboundOrigins = [''AAA''], outboundShoulderNights = 0,
              unavailableInboundOrigins = [''BBB''], inboundShoulderNights = 0 \<rparr>"
    by (simp add: candidate_eval)
  have 2: "candidate fixture [(''AAA'', 2), (''BBB'', 1), (''CCC'', 1)] {0, 1, 3} 9 14 0 0 2 =
     Some \<lparr> code = ''DDD'', availableOrigins = 2, totalStops = 0,
              unavailableOutboundOrigins = [''CCC'', ''BBB''], outboundShoulderNights = 0,
              unavailableInboundOrigins = [''CCC'', ''BBB''], inboundShoulderNights = 0 \<rparr>"
    by (simp add: candidate_eval)
  have 3: "candidate fixture [(''AAA'', 2), (''BBB'', 1), (''CCC'', 1)] {0, 1, 3} 9 14 0 0 3 =
     Some \<lparr> code = ''BBB'', availableOrigins = 0, totalStops = 0,
              unavailableOutboundOrigins = [''AAA'', ''CCC''], outboundShoulderNights = 0,
              unavailableInboundOrigins = [''AAA'', ''CCC''], inboundShoulderNights = 0 \<rparr>"
    by (simp add: candidate_eval)
  show ?thesis
    unfolding candidates.simps 0 1 2 3 by simp
qed

lemma fixture_ranking_00:
  "getDestinationsForDatePair fixture [(''AAA'', 2), (''BBB'', 1), (''CCC'', 1)]
     (january2025 10) (january2025 15) 0 0 1 =
   Inr [\<lparr> code = ''CCC'', availableOrigins = 2, totalStops = 2,
              unavailableOutboundOrigins = [''AAA''], outboundShoulderNights = 0,
              unavailableInboundOrigins = [''BBB''], inboundShoulderNights = 0 \<rparr>]"
proof -
  have c: "convertDateToArrayIndex fixture (january2025 10) = Inr 9"
    "convertDateToArrayIndex fixture (january2025 15) = Inr 14"
    by (simp_all add: convertDateToArrayIndex_eq dayIndex_january [OF fixture_state(1)])
  show ?thesis
    unfolding getDestinationsForDatePair_def originsVector_fixture Let_def c sum.case
      fixture_indices fixture_candidates_00 option.case
    by (simp add: sortResult_def)
qed

text \<open>
  Claim C1 (the scenario of the test).  On the store that is constructed with the start
  date 2025-01-01 and filled by the six \<^verbatim>\<open>setConnection\<close> calls of the fixture, the call
  with the origins AAA (2), BBB (1), CCC (1), the meeting from 2025-01-10 to 2025-01-15,
  one shoulder night on each side and \<^verbatim>\<open>take = 0\<close> returns the four records that the
  test expects, in its order: CCC, DDD, AAA, BBB.
\<close>

theorem fixture_scenario:
  "getDestinationsForDatePair fixture [(''AAA'', 2), (''BBB'', 1), (''CCC'', 1)]
     (january2025 10) (january2025 15) 1 1 0 =
   Inr [\<lparr> code = ''CCC'', availableOrigins = 4, totalStops = 4,
              unavailableOutboundOrigins = [], outboundShoulderNights = 2,
              unavailableInboundOrigins = [], inboundShoulderNights = 1 \<rparr>,
        \<lparr> code = ''DDD'', availableOrigins = 2, totalStops = 0,
              unavailableOutboundOrigins = [''CCC'', ''BBB''], outboundShoulderNights = 0,
              unavailableInboundOrigins = [''CCC'', ''BBB''], inboundShoulderNights = 0 \<rparr>,
        \<lparr> code = ''AAA'', availableOrigins = 0, totalStops = 0,
              unavailableOutboundOrigins = [''CCC'', ''BBB''], outboundShoulderNights = 0,
              unavailableInboundOrigins = [''CCC'', ''BBB''], inboundShoulderNights = 0 \<rparr>,
        \<lparr> code = ''BBB'', availableOrigins = 0, totalStops = 0,
              unavailableOutboundOrigins = [''AAA'', ''CCC''], outboundShoulderNights = 0,
              unavailableInboundOrigins = [''AAA'', ''CCC''], inboundShoulderNights = 0 \<rparr>]"
  by (simp add: fixture_ranking_11)

lemma fixture_ranking_11_first:
  "getDestinationsForDatePair fixture [(''AAA'', 2), (''BBB'', 1), (''CCC'', 1)]
     (january2025 10) (january2025 15) 1 1 1 =
   Inr [\<lparr> code = ''CCC'', availableOrigins = 4, totalStops = 4,
              unavailableOutboundOrigins = [], outboundShoulderNights = 2,
              unavailableInboundOrigins = [], inboundShoulderNights = 1 \<rparr>]"
  by (simp add: fixture_ranking_11)

lemma fixture_ranking_11_two:
  "getDestinationsForDatePair fixture [(''AAA'', 2), (''BBB'', 1), (''CCC'', 1)]
     (january2025 10) (january2025 15) 1 1 2 =
   Inr [\<lparr> code = ''CCC'', availableOrigins = 4, totalStops = 4,
              unavailableOutboundOrigins = [], outboundShoulderNights = 2,
              unavailableInboundOrigins = [], inboundShoulderNights = 1 \<rparr>,
        \<lparr> code = ''DDD'', availableOrigins = 2, totalStops = 0,
              unavailableOutboundOrigins = [''CCC'', ''BBB''], outboundShoulderNights = 0,
              unavailableInboundOrigins = [''CCC'', ''BBB''], inboundShoulderNights = 0 \<rparr>]"
proof -
  have "take (nat 2) [a, b, c, d] = [a, b]" for a b c d :: Destination
    by (simp add: numeral_2_eq_2)
  then show ?thesis by (simp add: fixture_ranking_11)
qed

theorem availableOrigins_monotone_witness:
  "wf fixture
   \<and> getDestinationsForDatePair fixture [(''AAA'', 2), (''BBB'', 1), (''CCC'', 1)]
       (january2025 10) (january2025 15) 0 0 1 =
     Inr [\<lparr> code = ''CCC'', availableOrigins = 2, totalStops = 2,
              unavailableOutboundOrigins = [''AAA''], outboundShoulderNights = 0,
              unavailableInboundOrigins = [''BBB''], inboundShoulderNights = 0 \<rparr>]
   \<and> getDestinationsForDatePair fixture [(''AAA'', 2), (''BBB'', 1), (''CCC'', 1)]
       (january2025 10) (january2025 15) 1 1 1 =
     Inr [\<lparr> code = ''CCC'', availableOrigins = 4, totalStops = 4,
              unavailableOutboundOrigins = [], outboundShoulderNights = 2,
              unavailableInboundOrigins = [], inboundShoulderNights = 1 \<rparr>]
   \<and> availableOrigins \<lparr> code = ''CCC'', availableOrigins = 2, totalStops = 2,
              unavailableOutboundOrigins = [''AAA''], outboundShoulderNights = 0,
              unavailableInboundOrigins = [''BBB''], inboundShoulderNights = 0 \<rparr>
     \<le> availableOrigins \<lparr> code = ''CCC'', availableOrigins = 4, totalStops = 4,
              unavailableOutboundOrigins = [], outboundShoulderNights = 2,
              unavailableInboundOrigins = [], inboundShoulderNights = 1 \<rparr>"
  using availableOrigins_monotone [OF wf_fixture fixture_ranking_00 fixture_ranking_11_first]
    wf_fixture fixture_ranking_00 fixture_ranking_11_first
  by simp

theorem result_sorted_and_truncated_witness:
  "wf fixture
   \<and> getDestinationsForDatePair fixture [(''AAA'', 2), (''BBB'', 1), (''CCC'', 1)]
       (january2025 10) (january2025 15) 1 1 2 =
     Inr [\<lparr> code = ''CCC'', availableOrigins = 4, totalStops = 4,
              unavailableOutboundOrigins = [], outboundShoulderNights = 2,
              unavailableInboundOrigins = [], inboundShoulderNights = 1 \<rparr>,
          \<lparr> code = ''DDD'', availableOrigins = 2, totalStops = 0,
              unavailableOutboundOrigins = [''CCC'', ''BBB''], outboundShoulderNights = 0,
              unavailableInboundOrigins = [''CCC'', ''BBB''], inboundShoulderNights = 0 \<rparr>]
   \<and> (\<exists>full. getDestinationsForDatePair fixture [(''AAA'', 2), (''BBB'', 1), (''CCC'', 1)]
                 (january2025 10) (january2025 15) 1 1 0 = Inr full
              \<and> mset (map code full) = mset (airportsArray fixture)
              \<and> [\<lparr> code = ''CCC'', availableOrigins = 4, totalStops = 4,
                     unavailableOutboundOrigins = [], outboundShoulderNights = 2,
                     unavailableInboundOrigins = [], inboundShoulderNights = 1 \<rparr>,
                  \<lparr> code = ''DDD'', availableOrigins = 2, totalStops = 0,
                     unavailableOutboundOrigins = [''CCC'', ''BBB''], outboundShoulderNights = 0,
                     unavailableInboundOrigins = [''CCC'', ''BBB''], inboundShoulderNights = 0 \<rparr>]
                 = take 2 full)"
  using result_sorted_and_truncated [OF wf_fixture fixture_ranking_11_two]
    wf_fixture fixture_ranking_11_two
  by simp

lemma candidate_nights:
  assumes "candidate s origins (prepareOriginVector s (originsMapKeys origins)) obi ibi mo mi i = Some d"
  shows "outboundShoulderNights d =
           (\<Sum>j = 1..mo. (\<Sum>x \<in> firstServed (outboundStorage s)
                (prepareOriginVector s (originsMapKeys origins)) obi (\<lambda>j. obi - j) i j.
                countOfIndex s origins x) * j)"
    and "inboundShoulderNights d =
           (\<Sum>j = 1..mi. (\<Sum>x \<in> firstServed (inboundStorage s)
                (prepareOriginVector s (originsMapKeys origins)) ibi (\<lambda>j. ibi + j) i j.
                countOfIndex s origins x) * j)"
proof -
  let ?ov = "prepareOriginVector s (originsMapKeys origins)"
  from assms obtain ao co so no ai ci si ni where
    o: "direction (outboundStorage s) (originsMapOf origins) (airportsArray s) ?ov (length origins)
             obi (mo > 0) True (\<lambda>j. obi - j) i [1..mo] = Some (ao, co, so, no)"
    and i: "direction (inboundStorage s) (originsMapOf origins) (airportsArray s) ?ov (length origins)
                 ibi True (mi > 0) (\<lambda>j. ibi + j) i [1..mi] = Some (ai, ci, si, ni)"
    and d: "outboundShoulderNights d = no" "inboundShoulderNights d = ni"
    unfolding candidate_eq by (auto split: option.splits prod.splits)
  note fin = finite_prepareOriginVector [of s "originsMapKeys origins"]
  note card = card_prepareOriginVector [of s origins]
  show "outboundShoulderNights d =
           (\<Sum>j = 1..mo. (\<Sum>x \<in> firstServed (outboundStorage s) ?ov obi (\<lambda>j. obi - j) i j.
                countOfIndex s origins x) * j)"
    unfolding d countOfIndex_def by (rule direction_nights [OF fin card _ o]) simp
  show "inboundShoulderNights d =
           (\<Sum>j = 1..mi. (\<Sum>x \<in> firstServed (inboundStorage s) ?ov ibi (\<lambda>j. ibi + j) i j.
                countOfIndex s origins x) * j)"
    unfolding d countOfIndex_def by (rule direction_nights [OF fin card _ i]) simp
qed

text \<open>
  The sets of the origins first served at two different distances are disjoint parts of
  the origins vector, so the shoulder nights are bounded by the sum of the absolute counts
  of the origins vector times the tolerance.
\<close>

lemma firstServed_subset: "firstServed st ov anchor dayOf i j \<subseteq> ov"
  by (auto simp: firstServed_def)

lemma firstServed_disjoint:
  assumes "1 \<le> j" and "j < k"
  shows "firstServed st ov anchor dayOf i j \<inter> firstServed st ov anchor dayOf i k = {}"
proof -
  have "j \<in> {1..<k}" using assms by simp
  then have "layerBits st (dayOf j) i \<subseteq> servedBefore st anchor dayOf i k"
    unfolding servedBefore_def by blast
  then show ?thesis
    unfolding firstServed_def by blast
qed

lemma shoulder_nights_bound:
  fixes W :: "nat \<Rightarrow> int"
  assumes fin: "finite ov" and b: "(\<Sum>x\<in>ov. \<bar>W x\<bar>) * M < 2 ^ 53" and m: "m \<le> M"
  shows "\<bar>\<Sum>j = 1..m. (\<Sum>x \<in> firstServed st ov anchor dayOf i j. W x) * j\<bar> < 2 ^ 53"
proof (cases "m < 1")
  case True
  then show ?thesis by simp
next
  case False
  let ?F = "\<lambda>j. firstServed st ov anchor dayOf i j"
  let ?S = "\<Sum>x\<in>ov. \<bar>W x\<bar>"
  have S0: "0 \<le> ?S" by (simp add: sum_nonneg)
  have finF: "finite (?F j)" for j
    using firstServed_subset fin by (rule finite_subset)
  have dis: "?F j \<inter> ?F k = {}" if "j \<in> {1..m}" "k \<in> {1..m}" "j \<noteq> k" for j k
  proof (cases "j < k")
    case True
    with that show ?thesis by (simp add: firstServed_disjoint)
  next
    case False
    with that have "k < j" "1 \<le> k" by auto
    then have "?F k \<inter> ?F j = {}" by (simp add: firstServed_disjoint)
    then show ?thesis by blast
  qed
  have U: "(\<Sum>j = 1..m. \<Sum>x\<in>?F j. \<bar>W x\<bar>) \<le> ?S"
  proof -
    have "(\<Sum>j = 1..m. \<Sum>x\<in>?F j. \<bar>W x\<bar>) = (\<Sum>x\<in>(\<Union>j\<in>{1..m}. ?F j). \<bar>W x\<bar>)"
      by (rule sum.UNION_disjoint [symmetric]) (use finF dis in auto)
    also have "\<dots> \<le> ?S"
    proof (rule sum_mono2)
      show "finite ov" by (rule fin)
      show "(\<Union>j\<in>{1..m}. ?F j) \<subseteq> ov"
        using firstServed_subset [of st ov anchor dayOf i] by blast
    qed simp
    finally show ?thesis .
  qed
  have step: "\<bar>(\<Sum>x\<in>?F j. W x) * j\<bar> \<le> (\<Sum>x\<in>?F j. \<bar>W x\<bar>) * m" if "j \<in> {1..m}" for j
  proof -
    from that have j: "0 \<le> j" "j \<le> m" by auto
    have "\<bar>(\<Sum>x\<in>?F j. W x) * j\<bar> = \<bar>\<Sum>x\<in>?F j. W x\<bar> * j"
      using j by (simp add: abs_mult)
    also have "\<dots> \<le> (\<Sum>x\<in>?F j. \<bar>W x\<bar>) * j"
      using j by (intro mult_right_mono sum_abs)
    also have "\<dots> \<le> (\<Sum>x\<in>?F j. \<bar>W x\<bar>) * m"
      using j by (intro mult_left_mono sum_nonneg) auto
    finally show ?thesis .
  qed
  have "\<bar>\<Sum>j = 1..m. (\<Sum>x\<in>?F j. W x) * j\<bar> \<le> (\<Sum>j = 1..m. \<bar>(\<Sum>x\<in>?F j. W x) * j\<bar>)"
    by (rule sum_abs)
  also have "\<dots> \<le> (\<Sum>j = 1..m. (\<Sum>x\<in>?F j. \<bar>W x\<bar>) * m)"
    by (rule sum_mono) (rule step)
  also have "\<dots> = (\<Sum>j = 1..m. \<Sum>x\<in>?F j. \<bar>W x\<bar>) * m"
    by (simp add: sum_distrib_right)
  also have "\<dots> \<le> ?S * m"
    using U False by (intro mult_right_mono) auto
  also have "\<dots> \<le> ?S * M"
    using S0 m by (rule mult_left_mono [rotated])
  finally show ?thesis
    using b by simp
qed

text \<open>
  Claim C6 (shoulder weighting).  The counts are integers, and the sums of the code are
  exact as long as no value reaches \<open>2^53\<close>; this is the case when the absolute counts of
  the registered origins, summed, times the larger tolerance stay below \<open>2^53\<close>, since
  every sum that the loops form is a sum of counts of different origins times a distance
  within the tolerance.  Under this bound, let a call of \<^verbatim>\<open>getDestinationsForDatePair\<close>
  return on a store that satisfies the invariant, and take the record of the candidate
  with index \<open>i\<close>.  Its \<^verbatim>\<open>outboundShoulderNights\<close> is the sum, over the distances \<open>j\<close> from 1
  to the outbound tolerance and over the origins that are served on the day at distance
  \<open>j\<close> before the anchor day and on no day nearer to it (the anchor day included), of the
  count of the origin times \<open>j\<close>; likewise \<^verbatim>\<open>inboundShoulderNights\<close> with the days after
  the anchor day.  So an origin first served at distance \<open>j\<close> contributes its count times
  \<open>j\<close>, and an origin served on the anchor day, or on no probed day, contributes nothing.
  The count read for the index of a registered origin code is the count last written for
  that code.  Both totals are below \<open>2^53\<close> in absolute value.
\<close>

theorem shoulder_nights_weighting:
  assumes "wf s"
    and "getDestinationsForDatePair s origins meetingStart meetingEnd mo mi t = Inr r"
    and "d \<in> set r" and "i < length (airportsArray s)" and "code d = airportsArray s ! i"
    and "(\<Sum>x \<in> prepareOriginVector s (originsMapKeys origins). \<bar>countOfIndex s origins x\<bar>)
           * max mo mi < 2 ^ 53"
  shows "outboundShoulderNights d =
           (\<Sum>j = 1..mo. (\<Sum>x \<in> firstServed (outboundStorage s)
                (prepareOriginVector s (originsMapKeys origins))
                (dayIndex s meetingStart) (\<lambda>j. dayIndex s meetingStart - j) i j.
                countOfIndex s origins x) * j)
       \<and> inboundShoulderNights d =
           (\<Sum>j = 1..mi. (\<Sum>x \<in> firstServed (inboundStorage s)
                (prepareOriginVector s (originsMapKeys origins))
                (dayIndex s meetingEnd) (\<lambda>j. dayIndex s meetingEnd + j) i j.
                countOfIndex s origins x) * j)
       \<and> (\<forall>c w x. map_of (rev origins) c = Some w \<and> map_of (airports s) c = Some x
             \<longrightarrow> countOfIndex s origins x = w)
       \<and> \<bar>outboundShoulderNights d\<bar> < 2 ^ 53
       \<and> \<bar>inboundShoulderNights d\<bar> < 2 ^ 53"
proof -
  from getDestinationsForDatePair_member [OF assms(2,3)] obtain i' where
    i': "i' < length (airports s)"
    "candidate s origins (prepareOriginVector s (originsMapKeys origins))
       (dayIndex s meetingStart) (dayIndex s meetingEnd) mo mi i' = Some d"
    by auto
  have "airportsArray s ! i' = airportsArray s ! i"
    using candidate_code [OF i'(2)] assms(5) by simp
  moreover have "distinct (airportsArray s)" "length (airports s) = length (airportsArray s)"
    using assms(1) by (simp_all add: wf_def)
  ultimately have "i' = i"
    using i'(1) assms(4) by (simp add: nth_eq_iff_index_eq)
  with i'(2) have c: "candidate s origins (prepareOriginVector s (originsMapKeys origins))
       (dayIndex s meetingStart) (dayIndex s meetingEnd) mo mi i = Some d"
    by simp
  have w: "countOfIndex s origins x = w"
    if "map_of (rev origins) c = Some w" "map_of (airports s) c = Some x" for c w x
    using that wf_lookup [OF assms(1), of c x] by (simp add: countOfIndex_def originsMapOf_def)
  note fin = finite_prepareOriginVector [of s "originsMapKeys origins"]
  have o: "\<bar>outboundShoulderNights d\<bar> < 2 ^ 53"
    unfolding candidate_nights(1) [OF c]
    by (rule shoulder_nights_bound [OF fin assms(6)]) simp
  have n: "\<bar>inboundShoulderNights d\<bar> < 2 ^ 53"
    unfolding candidate_nights(2) [OF c]
    by (rule shoulder_nights_bound [OF fin assms(6)]) simp
  show ?thesis
    using candidate_nights [OF c] w o n by blast
qed

text \<open>
  The fixture with the meeting from 11 to 15 January 2025 and the tolerances 2 and 1.
  No origin reaches CCC on 11 January; BBB reaches it on 10 January (distance 1, count 1)
  and AAA on 9 January (distance 2, count 2): \<open>1 * 1 + 2 * 2 = 5\<close> outbound shoulder
  nights.  AAA leaves CCC on 15 January and BBB on 16 January (distance 1, count 1).
\<close>

lemma fixture_candidates_21:
  "candidates fixture [(''AAA'', 2), (''BBB'', 1), (''CCC'', 1)] {0, 1, 3} 10 14 2 1 [0, 1, 2, 3] =
     Some [\<lparr> code = ''AAA'', availableOrigins = 0, totalStops = 0,
              unavailableOutboundOrigins = [''CCC'', ''BBB''], outboundShoulderNights = 0,
              unavailableInboundOrigins = [''CCC'', ''BBB''], inboundShoulderNights = 0 \<rparr>,
           \<lparr> code = ''CCC'', availableOrigins = 4, totalStops = 4,
              unavailableOutboundOrigins = [], outboundShoulderNights = 5,
              unavailableInboundOrigins = [], inboundShoulderNights = 1 \<rparr>,
           \<lparr> code = ''DDD'', availableOrigins = 2, totalStops = 0,
              unavailableOutboundOrigins = [''CCC'', ''BBB''], outboundShoulderNights = 2,
              unavailableInboundOrigins = [''CCC'', ''BBB''], inboundShoulderNights = 0 \<rparr>,
           \<lparr> code = ''BBB'', availableOrigins = 0, totalStops = 0,
              unavailableOutboundOrigins = [''AAA'', ''CCC''], outboundShoulderNights = 0,
              unavailableInboundOrigins = [''AAA'', ''CCC''], inboundShoulderNights = 0 \<rparr>]"
proof -
  have u: "[1..2] = [1, 2::int]" by (simp add: upto_rec1)
  have 0: "candidate fixture [(''AAA'', 2), (''BBB'', 1), (''CCC'', 1)] {0, 1, 3} 10 14 2 1 0 =
     Some \<lparr> code = ''AAA'', availableOrigins = 0, totalStops = 0,
              unavailableOutboundOrigins = [''CCC'', ''BBB''], outboundShoulderNights = 0,
              unavailableInboundOrigins = [''CCC'', ''BBB''], inboundShoulderNights = 0 \<rparr>"
    by (simp add: candidate_eval u)
  have 1: "candidate fixture [(''AAA'', 2), (''BBB'', 1), (''CCC'', 1)] {0, 1, 3} 10 14 2 1 1 =
     Some \<lparr> code = ''CCC'', availableOrigins = 4, totalStops = 4,
            unavailableOutboundOrigins = [], outboundShoulderNights = 5,
            unavailableInboundOrigins = [], inboundShoulderNights = 1 \<rparr>"
    by (simp add: candidate_eval u)
  have 2: "candidate fixture [(''AAA'', 2), (''BBB'', 1), (''CCC'', 1)] {0, 1, 3} 10 14 2 1 2 =
     Some \<lparr> code = ''DDD'', availableOrigins = 2, totalStops = 0,
              unavailableOutboundOrigins = [''CCC'', ''BBB''], outboundShoulderNights = 2,
              unavailableInboundOrigins = [''CCC'', ''BBB''], inboundShoulderNights = 0 \<rparr>"
    by (simp add: candidate_eval u)
  have 3: "candidate fixture [(''AAA'', 2), (''BBB'', 1), (''CCC'', 1)] {0, 1, 3} 10 14 2 1 3 =
     Some \<lparr> code = ''BBB'', availableOrigins = 0, totalStops = 0,
              unavailableOutboundOrigins = [''AAA'', ''CCC''], outboundShoulderNights = 0,
              unavailableInboundOrigins = [''AAA'', ''CCC''], inboundShoulderNights = 0 \<rparr>"
    by (simp add: candidate_eval u)
  show ?thesis
    unfolding candidates.simps 0 1 2 3 by simp
qed

lemma fixture_ranking_21_first:
  "getDestinationsForDatePair fixture [(''AAA'', 2), (''BBB'', 1), (''CCC'', 1)]
     (january2025 11) (january2025 15) 2 1 1 =
   Inr [\<lparr> code = ''CCC'', availableOrigins = 4, totalStops = 4,
              unavailableOutboundOrigins = [], outboundShoulderNights = 5,
              unavailableInboundOrigins = [], inboundShoulderNights = 1 \<rparr>]"
proof -
  have c: "convertDateToArrayIndex fixture (january2025 11) = Inr 10"
    "convertDateToArrayIndex fixture (january2025 15) = Inr 14"
    by (simp_all add: convertDateToArrayIndex_eq dayIndex_january [OF fixture_state(1)])
  show ?thesis
    unfolding getDestinationsForDatePair_def originsVector_fixture Let_def c sum.case
      fixture_indices fixture_candidates_21 option.case
    by (simp add: sortResult_def)
qed

lemma firstServed_fixture:
  "firstServed (outboundStorage fixture) {0, 1, 3} 10 (\<lambda>j. 10 - j) 1 1 = {3}"
  "firstServed (outboundStorage fixture) {0, 1, 3} 10 (\<lambda>j. 10 - j) 1 2 = {0}"
  "firstServed (inboundStorage fixture) {0, 1, 3} 14 (\<lambda>j. 14 + j) 1 1 = {3}"
  by (auto simp: firstServed_def servedBefore_def layerBits_def availableConnections_def
      cell_fixture fixture_state orArg_def split: if_splits)

lemma countOfIndex_fixture:
  "countOfIndex fixture [(''AAA'', 2), (''BBB'', 1), (''CCC'', 1)] 0 = 2"
  "countOfIndex fixture [(''AAA'', 2), (''BBB'', 1), (''CCC'', 1)] 1 = 1"
  "countOfIndex fixture [(''AAA'', 2), (''BBB'', 1), (''CCC'', 1)] 3 = 1"
  by (simp_all add: countOfIndex_def originsMapOf_def fixture_state)

theorem shoulder_nights_weighting_witness:
  "wf fixture
   \<and> getDestinationsForDatePair fixture [(''AAA'', 2), (''BBB'', 1), (''CCC'', 1)]
       (january2025 11) (january2025 15) 2 1 1 =
     Inr [\<lparr> code = ''CCC'', availableOrigins = 4, totalStops = 4,
              unavailableOutboundOrigins = [], outboundShoulderNights = 5,
              unavailableInboundOrigins = [], inboundShoulderNights = 1 \<rparr>]
   \<and> airportsArray fixture ! 1 = ''CCC''
   \<and> (\<Sum>x \<in> {0, 1, 3}. \<bar>countOfIndex fixture [(''AAA'', 2), (''BBB'', 1), (''CCC'', 1)] x\<bar>)
        * max 2 1 = 8
   \<and> firstServed (outboundStorage fixture) {0, 1, 3} 10 (\<lambda>j. 10 - j) 1 1 = {3}
   \<and> firstServed (outboundStorage fixture) {0, 1, 3} 10 (\<lambda>j. 10 - j) 1 2 = {0}
   \<and> firstServed (inboundStorage fixture) {0, 1, 3} 14 (\<lambda>j. 14 + j) 1 1 = {3}
   \<and> (5::int) = (\<Sum>j = 1..2. (\<Sum>x \<in> firstServed (outboundStorage fixture) {0, 1, 3} 10 (\<lambda>j. 10 - j) 1 j.
                countOfIndex fixture [(''AAA'', 2), (''BBB'', 1), (''CCC'', 1)] x) * j)
   \<and> (1::int) = (\<Sum>j = 1..1. (\<Sum>x \<in> firstServed (inboundStorage fixture) {0, 1, 3} 14 (\<lambda>j. 14 + j) 1 j.
                countOfIndex fixture [(''AAA'', 2), (''BBB'', 1), (''CCC'', 1)] x) * j)"
proof -
  have d: "dayIndex fixture (january2025 11) = 10" "dayIndex fixture (january2025 15) = 14"
    by (simp_all add: dayIndex_january [OF fixture_state(1)])
  have b: "(\<Sum>x \<in> {0, 1, 3}. \<bar>countOfIndex fixture [(''AAA'', 2), (''BBB'', 1), (''CCC'', 1)] x\<bar>)
        * max 2 1 = 8"
    by (simp add: countOfIndex_def originsMapOf_def fixture_state)
  have n: "(5::int) = (\<Sum>j = 1..2. (\<Sum>x \<in> firstServed (outboundStorage fixture) {0, 1, 3} 10 (\<lambda>j. 10 - j) 1 j.
                countOfIndex fixture [(''AAA'', 2), (''BBB'', 1), (''CCC'', 1)] x) * j)
   \<and> (1::int) = (\<Sum>j = 1..1. (\<Sum>x \<in> firstServed (inboundStorage fixture) {0, 1, 3} 14 (\<lambda>j. 14 + j) 1 j.
                countOfIndex fixture [(''AAA'', 2), (''BBB'', 1), (''CCC'', 1)] x) * j)"
    using shoulder_nights_weighting [OF wf_fixture fixture_ranking_21_first, of _ 1]
    unfolding originsVector_fixture d b
    by (simp add: fixture_state)
  have a: "airportsArray fixture ! 1 = ''CCC''" by (simp add: fixture_state)
  show ?thesis
    using wf_fixture fixture_ranking_21_first a b firstServed_fixture n by blast
qed

section \<open>The ranking creates objects and changes none\<close>

lemma extends_refl [simp]: "extends s s"
  by (simp add: extends_def)

lemma extends_trans:
  assumes "extends s s1" "extends s1 s2"
  shows "extends s s2"
proof -
  have v: "vectors s2 a = vectors s a" if "a < fresh s" for a
  proof -
    from that assms(1) have "a < fresh s1" "vectors s1 a = vectors s a"
      by (simp_all add: extends_def)
    with assms(2) show ?thesis by (simp add: extends_def)
  qed
  have "fresh s \<le> fresh s2"
    using assms by (simp add: extends_def)
  moreover have "outboundObjs s2 = outboundObjs s" "inboundObjs s2 = inboundObjs s"
    "airportsObjs s2 = airportsObjs s" "airportsArrayObjs s2 = airportsArrayObjs s"
    "startDateObjs s2 = startDateObjs s"
    using assms by (simp_all add: extends_def)
  ultimately show ?thesis
    using v by (simp add: extends_def)
qed

lemma extends_fresh: "extends s s' \<Longrightarrow> a < fresh s \<Longrightarrow> a < fresh s'"
  by (auto simp: extends_def)

lemma extends_vectors: "extends s s' \<Longrightarrow> a < fresh s \<Longrightarrow> vectors s' a = vectors s a"
  by (auto simp: extends_def)

lemma extends_sel: "extends s s' \<Longrightarrow> isStore sel \<Longrightarrow> sel s' = sel s"
  by (auto simp: extends_def isStore_def)

lemma allocated_extends:
  assumes "allocated s" "extends s s'"
  shows "allocated s'"
proof -
  have "a < fresh s'" if "a < fresh s" for a
    using that assms(2) by (simp add: extends_def)
  moreover have "outboundObjs s' = outboundObjs s" "inboundObjs s' = inboundObjs s"
    using assms(2) by (simp_all add: extends_def)
  ultimately show ?thesis
    using assms(1) by (simp add: allocated_def)
qed

lemma cell_map3: "cell (map (map (map f)) objs) d a k = map_option f (cell objs d a k)"
  by (auto simp: cell_def)

lemma cell_valuesOf: "cell (valuesOf s objs) d a k = map_option (vectors s) (cell objs d a k)"
  by (simp add: valuesOf_def cell_map3)

lemma cell_in_set:
  assumes "cell objs d a k = Some r"
  shows "\<exists>row \<in> set objs. \<exists>slot \<in> set row. r \<in> set slot"
proof -
  from assms have "nat d < length objs" "a < length (objs ! nat d)"
    "nat k < length (objs ! nat d ! a)" "r = objs ! nat d ! a ! nat k"
    by (simp_all add: cell_def split: if_splits)
  then show ?thesis by (meson nth_mem)
qed

lemma cell_allocated:
  assumes "allocated s" "isStore sel" "cell (sel s) d a k = Some r"
  shows "r < fresh s"
proof -
  from cell_in_set [OF assms(3)] obtain row slot where
    m: "row \<in> set (sel s)" "slot \<in> set row" "r \<in> set slot"
    by blast
  from assms(2) consider "sel = outboundObjs" | "sel = inboundObjs"
    by (auto simp: isStore_def)
  then show ?thesis
    using m assms(1) by cases (auto simp: allocated_def)
qed

lemma valuesOf_extends:
  assumes "allocated s" "isStore sel" "extends s s'"
  shows "valuesOf s' (sel s) = valuesOf s (sel s)"
proof -
  from assms(2) consider "sel = outboundObjs" | "sel = inboundObjs"
    by (auto simp: isStore_def)
  then have "a < fresh s"
    if "row \<in> set (sel s)" "slot \<in> set row" "a \<in> set slot" for row slot a
    using that assms(1) by cases (auto simp: allocated_def)
  then have "vectors s' a = vectors s a"
    if "row \<in> set (sel s)" "slot \<in> set row" "a \<in> set slot" for row slot a
    using that assms(3) by (simp add: extends_def)
  then show ?thesis
    by (simp add: valuesOf_def)
qed

lemma storeOf_extends:
  assumes "allocated s" "extends s s'"
  shows "storeOf s' = storeOf s"
proof -
  have o: "map (map (map (vectors s'))) (outboundObjs s) = map (map (map (vectors s))) (outboundObjs s)"
    using valuesOf_extends [OF assms(1) _ assms(2), of outboundObjs]
    unfolding valuesOf_def isStore_def by blast
  have i: "map (map (map (vectors s'))) (inboundObjs s) = map (map (map (vectors s))) (inboundObjs s)"
    using valuesOf_extends [OF assms(1) _ assms(2), of inboundObjs]
    unfolding valuesOf_def isStore_def by blast
  have f: "outboundObjs s' = outboundObjs s" "inboundObjs s' = inboundObjs s"
    "airportsObjs s' = airportsObjs s" "airportsArrayObjs s' = airportsArrayObjs s"
    "startDateObjs s' = startDateObjs s"
    using assms(2) by (simp_all add: extends_def)
  show ?thesis
    unfolding storeOf_def f o i ..
qed

text \<open>Reading a cell inside a computation.\<close>

lemma bindH_readCell:
  "bindH (readCell sel d a k) f s = (case cell (sel s) d a k of None \<Rightarrow> (None, s) | Some r \<Rightarrow> f r s)"
  by (simp add: bindH_def readCell_def split: option.splits)

lemma isStore_frame:
  "isStore sel \<Longrightarrow> sel (s\<lparr>vectors := v, fresh := n\<rparr>) = sel s"
  by (auto simp: isStore_def)

subsection \<open>The methods of the package\<close>

lemma holds_extends: "holds s a b \<Longrightarrow> extends s s' \<Longrightarrow> holds s' a b"
  by (simp add: holds_def extends_def)

lemma bsNot_spec:
  assumes "holds s a A"
  obtains r s' where "bsNot a s = (Some r, s')" "extends s s'" "holds s' r (- A)"
  using assms that [of "fresh s" "snd (bsNot a s)"]
  by (simp add: bsNot_def newObject_def holds_def extends_def)

lemma bsAnd_spec:
  assumes "holds s a A" "holds s b B"
  obtains r s' where "bsAnd a b s = (Some r, s')" "extends s s'" "holds s' r (A \<inter> B)"
  using assms that [of "fresh s" "snd (bsAnd a b s)"]
  by (simp add: bsAnd_def newObject_def holds_def extends_def)

lemma bsOr_spec:
  assumes "holds s a A" "holds s b B"
  obtains r s' where "bsOr a (Some b) s = (Some r, s')" "extends s s'" "holds s' r (A \<union> B)"
  using assms that [of "fresh s" "snd (bsOr a (Some b) s)"]
  by (simp add: bsOr_def newObject_def holds_def extends_def orArg_def)

lemma bsCardinality_spec: "holds s a A \<Longrightarrow> bsCardinality a s = (Some (card A), s)"
  by (simp add: bsCardinality_def holds_def)

lemma bsToArray_spec: "holds s a A \<Longrightarrow> bsToArray a s = (Some (sorted_list_of_set A), s)"
  by (simp add: bsToArray_def holds_def)

subsection \<open>The functions that call the package only\<close>

lemma prepareOriginVectorObj_spec:
  obtains r s' where "prepareOriginVectorObj keys s = (Some r, s')" "extends s s'"
    "holds s' r (prepareOriginVector (storeOf s) keys)"
  using that [of "fresh s" "snd (prepareOriginVectorObj keys s)"]
  by (simp add: prepareOriginVectorObj_def bsNew_def newObject_def holds_def extends_def
      prepareOriginVector_def storeOf_def)

lemma availableConnectionsObj_case:
  assumes "allocated s" "isStore sel"
  shows "case availableConnectionsObj sel day i s of (res, s') \<Rightarrow>
           extends s s' \<and>
           map_option (vectors s') res = availableConnections (valuesOf s (sel s)) day i \<and>
           (\<forall>r. res = Some r \<longrightarrow> r < fresh s')"
proof (cases "cell (sel s) day i 0")
  case None
  then show ?thesis
    by (simp add: availableConnectionsObj_def bindH_readCell availableConnections_def cell_valuesOf)
next
  case (Some r0)
  have r0: "r0 < fresh s" using assms Some by (rule cell_allocated)
  have r1: "r < fresh s" if "cell (sel s) day i 1 = Some r" for r
    using assms that by (rule cell_allocated)
  have r2: "r < fresh s" if "cell (sel s) day i 2 = Some r" for r
    using assms that by (rule cell_allocated)
  note f = isStore_frame [OF assms(2)]
  show ?thesis
    unfolding availableConnectionsObj_def bindH_readCell Some option.case
    using r0 r1 r2
    by (cases "cell (sel s) day i 1"; cases "cell (sel s) day i 2")
      (simp_all add: bindH_def bsOr_def newObject_def f extends_def availableConnections_def
        cell_valuesOf Some orArg_def)
qed

lemma availableConnectionsObj_spec:
  assumes "allocated s" "isStore sel"
  obtains (fail) s' where "availableConnectionsObj sel day i s = (None, s')" "extends s s'"
      "availableConnections (valuesOf s (sel s)) day i = None"
    | (ok) r s' A where "availableConnectionsObj sel day i s = (Some r, s')" "extends s s'"
      "holds s' r A" "availableConnections (valuesOf s (sel s)) day i = Some A"
proof (cases "availableConnectionsObj sel day i s")
  case (Pair res s')
  with availableConnectionsObj_case [OF assms, of day i]
  have e: "extends s s'"
    and v: "map_option (vectors s') res = availableConnections (valuesOf s (sel s)) day i"
    and r: "\<And>r. res = Some r \<Longrightarrow> r < fresh s'"
    by simp_all
  show ?thesis
  proof (cases res)
    case None
    with Pair e v show ?thesis by (intro fail [of s']) simp_all
  next
    case (Some r')
    with Pair e v r [of r'] show ?thesis
      by (intro ok [of r' s' "vectors s' r'"]) (simp_all add: holds_def)
  qed
qed

lemma getStopsCountObj_case:
  assumes "allocated s" "isStore sel" "holds s ov OV"
  shows "case getStopsCountObj sel ov index dest s of (res, s') \<Rightarrow>
           extends s s' \<and> res = getStopsCount (valuesOf s (sel s)) OV index dest"
proof -
  have r: "r < fresh s" if "cell (sel s) index dest k = Some r" for r k
    using assms(1,2) that by (rule cell_allocated)
  have ov: "ov < fresh s" "vectors s ov = OV" using assms(3) by (simp_all add: holds_def)
  note f = isStore_frame [OF assms(2)]
  show ?thesis
    unfolding getStopsCountObj_def bindH_readCell
    using r [of 0] r [of 1] r [of 2] ov
    by (cases "cell (sel s) index dest 0"; cases "cell (sel s) index dest 1";
        cases "cell (sel s) index dest 2")
      (simp_all add: bindH_def bsNot_def bsAnd_def bsCardinality_def newObject_def returnH_def
        readCell_def f extends_def getStopsCount_def cell_valuesOf Let_def)
qed

lemma getStopsCountObj_spec:
  assumes "allocated s" "isStore sel" "holds s ov OV"
  obtains s' where
    "getStopsCountObj sel ov index dest s = (getStopsCount (valuesOf s (sel s)) OV index dest, s')"
    "extends s s'"
  using getStopsCountObj_case [OF assms, of index dest] that
  by (cases "getStopsCountObj sel ov index dest s") simp

lemma getUnavailableOriginsObj_spec:
  assumes "holds s a A" "holds s ov OV"
  obtains s' where
    "getUnavailableOriginsObj a ov cur s = (Some (getUnavailableOrigins (storeOf s) A OV cur), s')"
    "extends s s'"
  using assms that [of "snd (getUnavailableOriginsObj a ov cur s)"]
  by (simp add: getUnavailableOriginsObj_def bindH_def bsNot_def bsAnd_def bsToArray_def
      newObject_def holds_def extends_def getUnavailableOrigins_def storeOf_def)

subsection \<open>The shoulder loops\<close>

lemma valuesOf_sel_extends:
  assumes "allocated s" "isStore sel" "extends s s'"
  shows "valuesOf s' (sel s') = valuesOf s (sel s)"
  using valuesOf_extends [OF assms] extends_sel [OF assms(3,2)] by simp

lemma shoulderNightObj_spec:
  assumes al: "allocated s" and sel: "isStore sel" and ov: "holds s ov OV" and a: "holds s a A"
  obtains (fail) s' where
      "shoulderNightObj sel om ov i day j (a, c, t, n) s = (None, s')" "extends s s'"
      "shoulderNight (valuesOf s (sel s)) om (airportsArrayObjs s) OV i day j (A, c, t, n) = None"
    | (ok) a' A' c' t' n' s' where
      "shoulderNightObj sel om ov i day j (a, c, t, n) s = (Some (a', c', t', n'), s')" "extends s s'"
      "holds s' a' A'"
      "shoulderNight (valuesOf s (sel s)) om (airportsArrayObjs s) OV i day j (A, c, t, n)
         = Some (A', c', t', n')"
proof -
  let ?V = "valuesOf s (sel s)"
  from al sel show thesis
  proof (cases rule: availableConnectionsObj_spec [where day = day and i = i])
    case (fail s1)
    have 1: "shoulderNightObj sel om ov i day j (a, c, t, n) s = (None, s1)"
      by (simp add: shoulderNightObj_def bindH_def fail(1))
    have 2: "shoulderNight ?V om (airportsArrayObjs s) OV i day j (A, c, t, n) = None"
      by (simp add: shoulderNight_def fail(3))
    show ?thesis by (rule that(1) [OF 1 fail(2) 2])
  next
    case (ok r1 s1 L)
    have a1: "holds s1 a A" and ov1: "holds s1 ov OV"
      using a ov ok(2) by (auto intro: holds_extends)
    from a1 obtain r2 s2 where 2: "bsNot a s1 = (Some r2, s2)" "extends s1 s2" "holds s2 r2 (- A)"
      by (rule bsNot_spec)
    have ov2: "holds s2 ov OV" using ov1 2(2) by (rule holds_extends)
    from 2(3) ov2 obtain r3 s3 where 3: "bsAnd r2 ov s2 = (Some r3, s3)" "extends s2 s3"
      "holds s3 r3 (- A \<inter> OV)"
      by (rule bsAnd_spec)
    have e3: "extends s s3" using ok(2) 2(2) 3(2) by (blast intro: extends_trans)
    have al3: "allocated s3" using al e3 by (rule allocated_extends)
    have V3: "valuesOf s3 (sel s3) = ?V" using al sel e3 by (rule valuesOf_sel_extends)
    from al3 sel 3(3) obtain s4 where 4:
      "getStopsCountObj sel r3 day i s3 = (getStopsCount ?V (- A \<inter> OV) day i, s4)" "extends s3 s4"
      using getStopsCountObj_spec [of s3 sel r3 "- A \<inter> OV" day i] V3 by metis
    have e4: "extends s s4" using e3 4(2) by (rule extends_trans)
    have pre: "shoulderNightObj sel om ov i day j (a, c, t, n) s
        = bindH (getStopsCountObj sel r3 day i) (\<lambda>stopsCount.
            bindH (bsAnd r1 r3) (\<lambda>temp.
            bindH (bsCardinality temp) (\<lambda>temporaryCardinality.
            bindH (bsToArray temp) (\<lambda>indices.
            bindH (\<lambda>s. (Some (sumArray (map (\<lambda>ind. the (om (airportsArrayObjs s ! ind)))
                                      indices)), s)) (\<lambda>weight.
            bindH (bsOr a (Some r1)) (\<lambda>available'.
            returnH (available', c + temporaryCardinality, t + stopsCount,
                     n + weight * j))))))) s3"
      by (simp add: shoulderNightObj_def bindH_def ok(1) 2(1) 3(1))
    show ?thesis
    proof (cases "getStopsCount ?V (- A \<inter> OV) day i")
      case None
      have x: "shoulderNightObj sel om ov i day j (a, c, t, n) s = (None, s4)"
        unfolding pre using 4(1) None by (simp add: bindH_def)
      have y: "shoulderNight ?V om (airportsArrayObjs s) OV i day j (A, c, t, n) = None"
        by (simp add: shoulderNight_def ok(4) None Let_def)
      show ?thesis by (rule that(1) [OF x e4 y])
    next
      case (Some sc)
      have g4: "getStopsCountObj sel r3 day i s3 = (Some sc, s4)" using 4(1) Some by simp
      have r1_4: "holds s4 r1 L" and r3_4: "holds s4 r3 (- A \<inter> OV)" and a4: "holds s4 a A"
        using ok(3) 2(2) 3(2,3) 4(2) a1 by (blast intro: holds_extends)+
      from r1_4 r3_4 obtain r5 s5 where 5: "bsAnd r1 r3 s4 = (Some r5, s5)" "extends s4 s5"
        "holds s5 r5 (L \<inter> (- A \<inter> OV))"
        by (rule bsAnd_spec)
      have r1_5: "holds s5 r1 L" and a5: "holds s5 a A"
        using r1_4 a4 5(2) by (blast intro: holds_extends)+
      from a5 r1_5 obtain r6 s6 where 6: "bsOr a (Some r1) s5 = (Some r6, s6)" "extends s5 s6"
        "holds s6 r6 (A \<union> L)"
        by (rule bsOr_spec)
      have e5: "extends s s5" using e4 5(2) by (rule extends_trans)
      then have arr: "airportsArrayObjs s5 = airportsArrayObjs s" by (simp add: extends_def)
      have e6: "extends s s6" using e5 6(2) by (rule extends_trans)
      have x: "shoulderNightObj sel om ov i day j (a, c, t, n) s
          = (Some (r6, c + card (L \<inter> (- A \<inter> OV)), t + sc,
               n + sumArray (map (\<lambda>ind. the (om (airportsArrayObjs s ! ind)))
                     (sorted_list_of_set (L \<inter> (- A \<inter> OV)))) * j), s6)"
        unfolding pre
        by (simp add: bindH_def g4 5(1) bsCardinality_spec [OF 5(3)] bsToArray_spec [OF 5(3)]
            arr 6(1) returnH_def)
      have y: "shoulderNight ?V om (airportsArrayObjs s) OV i day j (A, c, t, n)
          = Some (A \<union> L, c + card (L \<inter> (- A \<inter> OV)), t + sc,
               n + sumArray (map (\<lambda>ind. the (om (airportsArrayObjs s ! ind)))
                     (sorted_list_of_set (L \<inter> (- A \<inter> OV)))) * j)"
        by (simp add: shoulderNight_def ok(4) Some Let_def)
      show ?thesis by (rule that(2) [OF x e6 6(3) y])
    qed
  qed
qed

lemma shoulderLoopObj_spec:
  assumes sel: "isStore sel"
  shows "allocated s \<Longrightarrow> holds s ov OV \<Longrightarrow> holds s a A \<Longrightarrow>
     \<exists>res s'. shoulderLoopObj sel om ov n g dayOf i js (a, c, t, nn) s = (res, s') \<and> extends s s' \<and>
       loopResult s' res
         (shoulderLoop (valuesOf s (sel s)) om (airportsArrayObjs s) OV n g dayOf i js (A, c, t, nn))"
proof (induction js arbitrary: s a A c t nn)
  case Nil
  then show ?case by (simp add: loopResult_def)
next
  case (Cons j js)
  show ?case
  proof (cases "c < n \<and> g")
    case False
    have lo: "shoulderLoopObj sel om ov n g dayOf i (j # js) (a, c, t, nn) s
        = shoulderLoopObj sel om ov n g dayOf i js (a, c, t, nn) s"
      by (simp only: shoulderLoopObj.simps fst_conv snd_conv False if_False simp_thms)
    have lp: "shoulderLoop (valuesOf s (sel s)) om (airportsArrayObjs s) OV n g dayOf i (j # js) (A, c, t, nn)
        = shoulderLoop (valuesOf s (sel s)) om (airportsArrayObjs s) OV n g dayOf i js (A, c, t, nn)"
      by (simp only: shoulderLoop.simps fst_conv snd_conv False if_False simp_thms)
    show ?thesis unfolding lo lp by (rule Cons.IH [OF Cons.prems])
  next
    case True
    have lo: "shoulderLoopObj sel om ov n g dayOf i (j # js) (a, c, t, nn) s
        = (case shoulderNightObj sel om ov i (dayOf j) j (a, c, t, nn) s of
              (None, s') \<Rightarrow> (None, s')
            | (Some v', s') \<Rightarrow> shoulderLoopObj sel om ov n g dayOf i js v' s')"
      by (simp only: shoulderLoopObj.simps fst_conv snd_conv True if_True simp_thms)
    have lp: "shoulderLoop (valuesOf s (sel s)) om (airportsArrayObjs s) OV n g dayOf i (j # js) (A, c, t, nn)
        = (case shoulderNight (valuesOf s (sel s)) om (airportsArrayObjs s) OV i (dayOf j) j (A, c, t, nn) of
             None \<Rightarrow> None
           | Some v' \<Rightarrow> shoulderLoop (valuesOf s (sel s)) om (airportsArrayObjs s) OV n g dayOf i js v')"
      by (simp only: shoulderLoop.simps fst_conv snd_conv True if_True simp_thms) (simp split: option.splits)
    from Cons.prems(1) sel Cons.prems(2,3) show ?thesis
    proof (cases rule: shoulderNightObj_spec
        [where om = om and i = i and day = "dayOf j" and j = j and c = c and t = t and n = nn])
      case (fail s1)
      then show ?thesis unfolding lo lp by (simp add: loopResult_def)
    next
      case (ok a1 A1 c1 t1 n1 s1)
      have al1: "allocated s1" using Cons.prems(1) ok(2) by (rule allocated_extends)
      have ov1: "holds s1 ov OV" using Cons.prems(2) ok(2) by (rule holds_extends)
      have V1: "valuesOf s1 (sel s1) = valuesOf s (sel s)"
        using Cons.prems(1) sel ok(2) by (rule valuesOf_sel_extends)
      have arr1: "airportsArrayObjs s1 = airportsArrayObjs s"
        using ok(2) by (simp add: extends_def)
      from Cons.IH [OF al1 ov1 ok(3), of c1 t1 n1] obtain res s' where
        r: "shoulderLoopObj sel om ov n g dayOf i js (a1, c1, t1, n1) s1 = (res, s')"
        "extends s1 s'"
        "loopResult s' res
           (shoulderLoop (valuesOf s (sel s)) om (airportsArrayObjs s) OV n g dayOf i js (A1, c1, t1, n1))"
        unfolding V1 arr1 by blast
      have "extends s s'" using ok(2) r(2) by (rule extends_trans)
      then show ?thesis
        unfolding lo lp using ok(1,4) r(1,3) by simp
    qed
  qed
qed

lemma directionObj_spec:
  assumes al: "allocated s" and sel: "isStore sel" and ov: "holds s ov OV"
  shows "\<exists>res s'. directionObj sel om ov n anchor outer g dayOf i js s = (res, s') \<and> extends s s' \<and>
       loopResult s' res
         (direction (valuesOf s (sel s)) om (airportsArrayObjs s) OV n anchor outer g dayOf i js)"
proof -
  let ?V = "valuesOf s (sel s)"
  from al sel show ?thesis
  proof (cases rule: availableConnectionsObj_spec [where day = anchor and i = i])
    case (fail s1)
    then show ?thesis
      by (simp add: directionObj_def direction_def bindH_def loopResult_def)
  next
    case (ok r1 s1 A0)
    have ov1: "holds s1 ov OV" using ov ok(2) by (rule holds_extends)
    from ok(3) ov1 obtain r2 s2 where 2: "bsAnd r1 ov s1 = (Some r2, s2)" "extends s1 s2"
      "holds s2 r2 (A0 \<inter> OV)"
      by (rule bsAnd_spec)
    have e2: "extends s s2" using ok(2) 2(2) by (rule extends_trans)
    have al2: "allocated s2" using al e2 by (rule allocated_extends)
    have ov2: "holds s2 ov OV" using ov e2 by (rule holds_extends)
    have V2: "valuesOf s2 (sel s2) = ?V" using al sel e2 by (rule valuesOf_sel_extends)
    from al2 sel ov2 obtain s3 where 3:
      "getStopsCountObj sel ov anchor i s2 = (getStopsCount ?V OV anchor i, s3)" "extends s2 s3"
      using getStopsCountObj_spec [of s2 sel ov OV anchor i] V2 by metis
    have e3: "extends s s3" using e2 3(2) by (rule extends_trans)
    have pre: "directionObj sel om ov n anchor outer g dayOf i js s
        = bindH (getStopsCountObj sel ov anchor i) (\<lambda>stops0.
            if card (A0 \<inter> OV) < n \<and> outer
            then shoulderLoopObj sel om ov n g dayOf i js (r1, card (A0 \<inter> OV), stops0, 0)
            else returnH (r1, card (A0 \<inter> OV), stops0, 0)) s2"
      by (simp add: directionObj_def bindH_def ok(1) 2(1) bsCardinality_spec [OF 2(3)])
    have dir: "direction ?V om (airportsArrayObjs s) OV n anchor outer g dayOf i js
        = (case getStopsCount ?V OV anchor i of
             None \<Rightarrow> None
           | Some stops0 \<Rightarrow>
               if card (A0 \<inter> OV) < n \<and> outer
               then shoulderLoop ?V om (airportsArrayObjs s) OV n g dayOf i js
                      (A0, card (A0 \<inter> OV), stops0, 0)
               else Some (A0, card (A0 \<inter> OV), stops0, 0))"
      by (simp add: direction_def ok(4) Let_def split: option.splits)
    show ?thesis
    proof (cases "getStopsCount ?V OV anchor i")
      case None
      have "directionObj sel om ov n anchor outer g dayOf i js s = (None, s3)"
        unfolding pre by (simp add: bindH_def 3(1) None)
      then show ?thesis using e3 by (simp add: dir None loopResult_def)
    next
      case (Some stops0)
      have r1: "holds s3 r1 A0" using ok(3) 2(2) 3(2) by (blast intro: holds_extends)
      show ?thesis
      proof (cases "card (A0 \<inter> OV) < n \<and> outer")
        case False
        have "directionObj sel om ov n anchor outer g dayOf i js s
            = (Some (r1, card (A0 \<inter> OV), stops0, 0), s3)"
          unfolding pre bindH_def 3(1) Some
          by (simp only: prod.case option.case False if_False simp_thms returnH_def)
        moreover have "direction ?V om (airportsArrayObjs s) OV n anchor outer g dayOf i js
            = Some (A0, card (A0 \<inter> OV), stops0, 0)"
          unfolding dir Some by (simp only: option.case False if_False simp_thms)
        ultimately show ?thesis using e3 r1 by (auto simp: loopResult_def)
      next
        case True
        have al3: "allocated s3" using al e3 by (rule allocated_extends)
        have ov3: "holds s3 ov OV" using ov e3 by (rule holds_extends)
        have V3: "valuesOf s3 (sel s3) = ?V" using al sel e3 by (rule valuesOf_sel_extends)
        have arr3: "airportsArrayObjs s3 = airportsArrayObjs s"
          using e3 by (simp add: extends_def)
        from shoulderLoopObj_spec [OF sel al3 ov3 r1, of om n g dayOf i js "card (A0 \<inter> OV)" stops0 0]
        obtain res s' where
          r: "shoulderLoopObj sel om ov n g dayOf i js (r1, card (A0 \<inter> OV), stops0, 0) s3 = (res, s')"
          "extends s3 s'"
          "loopResult s' res (shoulderLoop ?V om (airportsArrayObjs s) OV n g dayOf i js
             (A0, card (A0 \<inter> OV), stops0, 0))"
          unfolding V3 arr3 by blast
        have e: "extends s s'" using e3 r(2) by (rule extends_trans)
        have "directionObj sel om ov n anchor outer g dayOf i js s = (res, s')"
          unfolding pre bindH_def 3(1) Some
          by (simp only: prod.case option.case True if_True simp_thms r(1))
        moreover have "direction ?V om (airportsArrayObjs s) OV n anchor outer g dayOf i js
            = shoulderLoop ?V om (airportsArrayObjs s) OV n g dayOf i js
                (A0, card (A0 \<inter> OV), stops0, 0)"
          unfolding dir Some by (simp only: option.case True if_True simp_thms)
        ultimately show ?thesis using e r(3) by simp
      qed
    qed
  qed
qed

subsection \<open>The candidates and the call\<close>

lemma storeOf_simps [simp]:
  "outboundStorage (storeOf s) = valuesOf s (outboundObjs s)"
  "inboundStorage (storeOf s) = valuesOf s (inboundObjs s)"
  "airports (storeOf s) = airportsObjs s"
  "airportsArray (storeOf s) = airportsArrayObjs s"
  "startDate (storeOf s) = startDateObjs s"
  by (simp_all add: storeOf_def valuesOf_def)

lemma getUnavailableOrigins_cong:
  "airportsArray s = airportsArray s' \<Longrightarrow> getUnavailableOrigins s A OV i = getUnavailableOrigins s' A OV i"
  by (simp add: getUnavailableOrigins_def)

lemma candidateObj_spec:
  assumes al: "allocated s" and ov: "holds s ov OV"
  shows "\<exists>s'. candidateObj origins ov obi ibi mo mi i s
                 = (candidate (storeOf s) origins OV obi ibi mo mi i, s') \<and> extends s s'"
proof -
  let ?om = "originsMapOf origins" and ?n = "length origins"
  have so: "isStore outboundObjs" and si: "isStore inboundObjs" by (simp_all add: isStore_def)
  from directionObj_spec [OF al so ov, of ?om ?n obi "mo > 0" True "\<lambda>j. obi - j" i "[1..mo]"]
  obtain res1 s1 where
    1: "directionObj outboundObjs ?om ov ?n obi (mo > 0) True (\<lambda>j. obi - j) i [1..mo] s = (res1, s1)"
    "extends s s1"
    "loopResult s1 res1 (direction (outboundStorage (storeOf s)) ?om (airportsArray (storeOf s)) OV ?n
        obi (mo > 0) True (\<lambda>j. obi - j) i [1..mo])"
    by auto
  show ?thesis
  proof (cases res1)
    case None
    have "candidateObj origins ov obi ibi mo mi i s = (None, s1)"
      by (simp add: candidateObj_def bindH_def 1(1) None)
    moreover have "candidate (storeOf s) origins OV obi ibi mo mi i = None"
      using 1(3) unfolding candidate_eq by (simp add: loopResult_def None)
    ultimately show ?thesis using 1(2) by simp
  next
    case (Some v1)
    obtain ao co so' no where v1: "v1 = (ao, co, so', no)" by (cases v1) auto
    from 1(3) obtain AO where
      ao: "holds s1 ao AO"
      and d1: "direction (outboundStorage (storeOf s)) ?om (airportsArray (storeOf s)) OV ?n
        obi (mo > 0) True (\<lambda>j. obi - j) i [1..mo] = Some (AO, co, so', no)"
      by (auto simp: loopResult_def Some v1)
    have al1: "allocated s1" using al 1(2) by (rule allocated_extends)
    have ov1: "holds s1 ov OV" using ov 1(2) by (rule holds_extends)
    have st1: "storeOf s1 = storeOf s" using al 1(2) by (rule storeOf_extends)
    from directionObj_spec [OF al1 si ov1, of ?om ?n ibi True "mi > 0" "\<lambda>j. ibi + j" i "[1..mi]"]
    obtain res2 s2 where
      2: "directionObj inboundObjs ?om ov ?n ibi True (mi > 0) (\<lambda>j. ibi + j) i [1..mi] s1 = (res2, s2)"
      "extends s1 s2"
      "loopResult s2 res2 (direction (inboundStorage (storeOf s1)) ?om (airportsArray (storeOf s1)) OV ?n
          ibi True (mi > 0) (\<lambda>j. ibi + j) i [1..mi])"
      by auto
    have e2: "extends s s2" using 1(2) 2(2) by (rule extends_trans)
    show ?thesis
    proof (cases res2)
      case None
      have "candidateObj origins ov obi ibi mo mi i s = (None, s2)"
        by (simp add: candidateObj_def bindH_def 1(1) Some 2(1) None)
      moreover have "candidate (storeOf s) origins OV obi ibi mo mi i = None"
        using 2(3) unfolding candidate_eq d1 st1 by (simp add: loopResult_def None)
      ultimately show ?thesis using e2 by simp
    next
      case res2: (Some v2)
      obtain ai ci si' ni where v2: "v2 = (ai, ci, si', ni)" by (cases v2) auto
      from 2(3) obtain AI where
        ai: "holds s2 ai AI"
        and d2: "direction (inboundStorage (storeOf s)) ?om (airportsArray (storeOf s)) OV ?n
          ibi True (mi > 0) (\<lambda>j. ibi + j) i [1..mi] = Some (AI, ci, si', ni)"
        unfolding st1 by (auto simp: loopResult_def res2 v2)
      have ao2: "holds s2 ao AO" and ov2: "holds s2 ov OV"
        using ao ov1 2(2) by (blast intro: holds_extends)+
      from getUnavailableOriginsObj_spec [OF ao2 ov2, of i] obtain s3 where
        3: "getUnavailableOriginsObj ao ov i s2 = (Some (getUnavailableOrigins (storeOf s2) AO OV i), s3)"
        "extends s2 s3"
        by blast
      have ai3: "holds s3 ai AI" and ov3: "holds s3 ov OV"
        using ai ov2 3(2) by (blast intro: holds_extends)+
      from getUnavailableOriginsObj_spec [OF ai3 ov3, of i] obtain s4 where
        4: "getUnavailableOriginsObj ai ov i s3 = (Some (getUnavailableOrigins (storeOf s3) AI OV i), s4)"
        "extends s3 s4"
        by blast
      have e3: "extends s s3" using e2 3(2) by (rule extends_trans)
      have e4: "extends s s4" using e3 4(2) by (rule extends_trans)
      have arr: "airportsArrayObjs s2 = airportsArrayObjs s" "airportsArrayObjs s3 = airportsArrayObjs s"
        "airportsArrayObjs s4 = airportsArrayObjs s"
        using e2 e3 e4 by (simp_all add: extends_def)
      have u: "getUnavailableOrigins (storeOf s2) AO OV i = getUnavailableOrigins (storeOf s) AO OV i"
        "getUnavailableOrigins (storeOf s3) AI OV i = getUnavailableOrigins (storeOf s) AI OV i"
        by (rule getUnavailableOrigins_cong, simp add: arr)+
      have "candidateObj origins ov obi ibi mo mi i s
          = (Some \<lparr> code = airportsArrayObjs s ! i,
                availableOrigins = co + ci,
                totalStops = so' + si',
                unavailableOutboundOrigins = getUnavailableOrigins (storeOf s) AO OV i,
                outboundShoulderNights = no,
                unavailableInboundOrigins = getUnavailableOrigins (storeOf s) AI OV i,
                inboundShoulderNights = ni \<rparr>, s4)"
        by (simp add: candidateObj_def bindH_def 1(1) Some v1 2(1) res2 v2 3(1) 4(1) u arr)
      moreover have "candidate (storeOf s) origins OV obi ibi mo mi i
          = Some \<lparr> code = airportsArrayObjs s ! i,
                availableOrigins = co + ci,
                totalStops = so' + si',
                unavailableOutboundOrigins = getUnavailableOrigins (storeOf s) AO OV i,
                outboundShoulderNights = no,
                unavailableInboundOrigins = getUnavailableOrigins (storeOf s) AI OV i,
                inboundShoulderNights = ni \<rparr>"
        unfolding candidate_eq d1 d2 by simp
      ultimately show ?thesis using e4 by simp
    qed
  qed
qed

lemma candidatesObj_spec:
  "allocated s \<Longrightarrow> holds s ov OV \<Longrightarrow>
   \<exists>s'. candidatesObj origins ov obi ibi mo mi is s
           = (candidates (storeOf s) origins OV obi ibi mo mi is, s') \<and> extends s s'"
proof (induction "is" arbitrary: s)
  case Nil
  then show ?case by simp
next
  case (Cons i "is")
  from candidateObj_spec [OF Cons.prems, of origins obi ibi mo mi i] obtain s1 where
    1: "candidateObj origins ov obi ibi mo mi i s
          = (candidate (storeOf s) origins OV obi ibi mo mi i, s1)" "extends s s1"
    by blast
  have al1: "allocated s1" using Cons.prems(1) 1(2) by (rule allocated_extends)
  have ov1: "holds s1 ov OV" using Cons.prems(2) 1(2) by (rule holds_extends)
  have st1: "storeOf s1 = storeOf s" using Cons.prems(1) 1(2) by (rule storeOf_extends)
  from Cons.IH [OF al1 ov1] obtain s2 where
    2: "candidatesObj origins ov obi ibi mo mi is s1
          = (candidates (storeOf s) origins OV obi ibi mo mi is, s2)" "extends s1 s2"
    unfolding st1 by blast
  have e2: "extends s s2" using 1(2) 2(2) by (rule extends_trans)
  show ?case
  proof (cases "candidate (storeOf s) origins OV obi ibi mo mi i")
    case None
    then show ?thesis using 1 by simp
  next
    case (Some d)
    then show ?thesis
      using 1(1) 2(1) e2
      by (cases "candidates (storeOf s) origins OV obi ibi mo mi is") simp_all
  qed
qed

lemma getDestinationsForDatePairObj_spec:
  assumes "allocated s"
  shows "\<exists>s'. getDestinationsForDatePairObj origins meetingStart meetingEnd mo mi t s
           = (getDestinationsForDatePair (storeOf s) origins meetingStart meetingEnd mo mi t, s')
         \<and> extends s s'"
proof -
  obtain r s1 where
    1: "prepareOriginVectorObj (originsMapKeys origins) s = (Some r, s1)" "extends s s1"
    "holds s1 r (prepareOriginVector (storeOf s) (originsMapKeys origins))"
    by (rule prepareOriginVectorObj_spec)
  let ?OV = "prepareOriginVector (storeOf s) (originsMapKeys origins)"
  let ?obi = "(meetingStart - startDateObjs s) div 86400000"
  let ?ibi = "(meetingEnd - startDateObjs s) div 86400000"
  have al1: "allocated s1" using assms 1(2) by (rule allocated_extends)
  have st1: "storeOf s1 = storeOf s" using assms 1(2) by (rule storeOf_extends)
  have f1: "startDateObjs s1 = startDateObjs s" "airportsObjs s1 = airportsObjs s"
    using 1(2) by (simp_all add: extends_def)
  from candidatesObj_spec [OF al1 1(3), of origins ?obi ?ibi mo mi "[0..<length (airportsObjs s)]"]
  obtain s2 where
    2: "candidatesObj origins r ?obi ?ibi mo mi [0..<length (airportsObjs s)] s1
          = (candidates (storeOf s) origins ?OV ?obi ?ibi mo mi [0..<length (airportsObjs s)], s2)"
    "extends s1 s2"
    unfolding st1 by blast
  have e2: "extends s s2" using 1(2) 2(2) by (rule extends_trans)
  show ?thesis
    unfolding getDestinationsForDatePairObj_def getDestinationsForDatePair_def
      convertDateToArrayIndex_def Let_def 1(1) prod.case option.case f1 storeOf_simps
    using 1(2) e2
    by (auto simp: 2(1) split: sum.splits option.splits)
qed

lemma allocated_oneAirport: "allocated oneAirport"
  by (auto simp: allocated_def oneAirport_def)

text \<open>
  Claim C9 (pure read).  Take an object store in which every address held in a cell is
  in use.  A call of \<^verbatim>\<open>getDestinationsForDatePair\<close>, whether it returns or throws,
  computes what the ranking over values computes on the store that the objects stand
  for, and afterwards both stores hold the same addresses, the registry, the airports
  array and the start date are the same, and every object that existed before the call
  has the bits it had: the call only creates objects.  Hence the store of values that
  the object store stands for is the same before and after.
\<close>

theorem ranking_changes_no_stored_vector:
  assumes "allocated s"
  shows "fst (getDestinationsForDatePairObj origins meetingStart meetingEnd mo mi t s)
           = getDestinationsForDatePair (storeOf s) origins meetingStart meetingEnd mo mi t
       \<and> outboundObjs (snd (getDestinationsForDatePairObj origins meetingStart meetingEnd mo mi t s))
           = outboundObjs s
       \<and> inboundObjs (snd (getDestinationsForDatePairObj origins meetingStart meetingEnd mo mi t s))
           = inboundObjs s
       \<and> airportsObjs (snd (getDestinationsForDatePairObj origins meetingStart meetingEnd mo mi t s))
           = airportsObjs s
       \<and> airportsArrayObjs (snd (getDestinationsForDatePairObj origins meetingStart meetingEnd mo mi t s))
           = airportsArrayObjs s
       \<and> startDateObjs (snd (getDestinationsForDatePairObj origins meetingStart meetingEnd mo mi t s))
           = startDateObjs s
       \<and> (\<forall>a<fresh s.
            vectors (snd (getDestinationsForDatePairObj origins meetingStart meetingEnd mo mi t s)) a
              = vectors s a)
       \<and> storeOf (snd (getDestinationsForDatePairObj origins meetingStart meetingEnd mo mi t s))
           = storeOf s"
proof -
  from getDestinationsForDatePairObj_spec [OF assms, of origins meetingStart meetingEnd mo mi t]
  obtain s' where
    r: "getDestinationsForDatePairObj origins meetingStart meetingEnd mo mi t s
          = (getDestinationsForDatePair (storeOf s) origins meetingStart meetingEnd mo mi t, s')"
    and e: "extends s s'"
    by blast
  have "storeOf s' = storeOf s" using assms e by (rule storeOf_extends)
  then show ?thesis
    using e unfolding r fst_conv snd_conv by (simp add: extends_def)
qed

theorem ranking_changes_no_stored_vector_witness:
  "allocated oneAirport
   \<and> storeOf (snd (getDestinationsForDatePairObj [(''AAA'', 1)] (january2025 10) (january2025 15)
        1 1 0 oneAirport)) = storeOf oneAirport
   \<and> vectors (snd (getDestinationsForDatePairObj [(''AAA'', 1)] (january2025 10)
        (january2025 15) 1 1 0 oneAirport)) 27 = {}"
proof -
  have f: "fresh oneAirport = 2160" "vectors oneAirport = (\<lambda>a. {})"
    by (simp_all add: oneAirport_def)
  show ?thesis
    using ranking_changes_no_stored_vector [OF allocated_oneAirport, of "[(''AAA'', 1)]"
        "january2025 10" "january2025 15" 1 1 0]
      allocated_oneAirport
    by (simp add: f)
qed

end
